theory Spec2Isabelle
  imports Main
begin

section \<open>Strings\<close>

text \<open>
  JavaScript strings are modelled as \<^typ>\<open>string\<close> over ASCII. \<open>toLowerCase\<close>,
  \<open>toUpperCase\<close> and \<open>trim\<close> act on the ASCII letters and the ASCII white space
  (tab, line feed, vertical tab, form feed, carriage return, space); the other
  characters are left alone.
\<close>

definition lower_char :: "char \<Rightarrow> char" where
  "lower_char c =
     (case map_of (zip ''ABCDEFGHIJKLMNOPQRSTUVWXYZ'' ''abcdefghijklmnopqrstuvwxyz'') c of
        Some d \<Rightarrow> d
      | None \<Rightarrow> c)"

definition upper_char :: "char \<Rightarrow> char" where
  "upper_char c =
     (case map_of (zip ''abcdefghijklmnopqrstuvwxyz'' ''ABCDEFGHIJKLMNOPQRSTUVWXYZ'') c of
        Some d \<Rightarrow> d
      | None \<Rightarrow> c)"

definition toLowerCase :: "string \<Rightarrow> string" where
  "toLowerCase s = map lower_char s"

definition toUpperCase :: "string \<Rightarrow> string" where
  "toUpperCase s = map upper_char s"

definition is_space :: "char \<Rightarrow> bool" where
  "is_space c = (c \<in> set [CHR 0x09, CHR 0x0A, CHR 0x0B, CHR 0x0C, CHR 0x0D, CHR '' ''])"

definition trim :: "string \<Rightarrow> string" where
  "trim s = rev (dropWhile is_space (rev (dropWhile is_space s)))"

text \<open>\<open>s.includes(t)\<close>: \<open>t\<close> occurs in \<open>s\<close> as a contiguous substring.\<close>

fun includes_str :: "string \<Rightarrow> string \<Rightarrow> bool" where
  "includes_str [] t = (t = [])"
| "includes_str (c # s) t = (take (length t) (c # s) = t \<or> includes_str s t)"

text \<open>The decimal numeral of a template literal such as \<open>`f${fieldIdx}`\<close>.\<close>

fun string_of_nat :: "nat \<Rightarrow> string" where
  "string_of_nat n =
     (if n < 10 then [''0123456789'' ! n]
      else string_of_nat (n div 10) @ [''0123456789'' ! (n mod 10)])"

declare string_of_nat.simps [simp del]

text \<open>\<open>xs.join(sep)\<close>.\<close>

fun join_str :: "string \<Rightarrow> string list \<Rightarrow> string" where
  "join_str sep [] = []"
| "join_str sep [x] = x"
| "join_str sep (x # y # ys) = x @ sep @ join_str sep (y # ys)"

section \<open>The page: a DOM tree\<close>

text \<open>
  An element carries what \<open>dom-scanner.ts\<close> reads and writes: its local name, its
  content attributes (\<open>getAttribute\<close>, the selectors, and the reflecting properties
  \<open>id\<close>, \<open>name\<close>, \<open>placeholder\<close>, \<open>required\<close>), the property \<open>type\<close>, the value
  and checkedness of a control, the options and \<open>selectedIndex\<close> of a select
  (\<open>None\<close> stands for \<open>-1\<close>), and the layout facts \<open>isVisible\<close> asks the browser for.
  Two more facts decide what \<open>el.click()\<close> does: whether the control is disabled
  (its own \<open>disabled\<close> attribute, or a disabled \<open>fieldset\<close> around it), and whether a
  listener of the page cancels the click event dispatched at the element
  (\<open>preventDefault\<close>).
\<close>

record option_el =
  opt_text :: string
  opt_value :: string

record element =
  tag :: string
  attrs :: "(string \<times> string) list"
  el_type :: string
  el_value :: string
  checked :: bool
  disabled :: bool
  clickCancelled :: bool
  options :: "option_el list"
  selectedIndex :: "nat option"
  offsetParentNull :: bool
  stylePosition :: string
  cssDisplay :: string
  cssVisibility :: string
  cssOpacity :: string
  rectWidth :: nat
  rectHeight :: nat

datatype node = TextNode string | ElemNode element "node list"

text \<open>
  An element is named by its path from the top of the document (child indices):
  this is the identity that the reference table stores where the source stores the
  object.
\<close>

type_synonym path = "nat list"

fun nodeAt :: "node list \<Rightarrow> path \<Rightarrow> node option" where
  "nodeAt ns [] = None"
| "nodeAt ns (i # p) =
     (if i < length ns then
        (if p = [] then Some (ns ! i)
         else (case ns ! i of ElemNode e cs \<Rightarrow> nodeAt cs p | TextNode s \<Rightarrow> None))
      else None)"

definition elemAt :: "node list \<Rightarrow> path \<Rightarrow> element option" where
  "elemAt ns p = (case nodeAt ns p of Some (ElemNode e cs) \<Rightarrow> Some e | _ \<Rightarrow> None)"

fun updateAt :: "(element \<Rightarrow> element) \<Rightarrow> node list \<Rightarrow> path \<Rightarrow> node list" where
  "updateAt f ns [] = ns"
| "updateAt f ns (i # p) =
     (if i < length ns then
        (case ns ! i of
           ElemNode e cs \<Rightarrow>
             ns[i := (if p = [] then ElemNode (f e) cs else ElemNode e (updateAt f cs p))]
         | TextNode s \<Rightarrow> ns)
      else ns)"

text \<open>
  The elements of the document in tree order, each with its path and its children:
  the order in which \<open>querySelectorAll\<close>, \<open>querySelector\<close> and \<open>getElementById\<close> meet them.
\<close>

primrec walk :: "node \<Rightarrow> path \<Rightarrow> (path \<times> element \<times> node list) list" where
  "walk (TextNode s) p = []"
| "walk (ElemNode e cs) p =
     (p, e, cs) # concat (map (\<lambda>(i, f). f (p @ [i])) (zip [0..<length cs] (map walk cs)))"

definition walkAll :: "node list \<Rightarrow> (path \<times> element \<times> node list) list" where
  "walkAll ns = concat (map (\<lambda>(i, n). walk n [i]) (zip [0..<length ns] ns))"

text \<open>A change applied to every element of a tree, the element's path at hand.\<close>

primrec mapWithPath :: "(path \<Rightarrow> element \<Rightarrow> element) \<Rightarrow> node \<Rightarrow> path \<Rightarrow> node" where
  "mapWithPath g (TextNode s) p = TextNode s"
| "mapWithPath g (ElemNode e cs) p =
     ElemNode (g p e)
       (map (\<lambda>(i, f). f (p @ [i])) (zip [0..<length cs] (map (mapWithPath g) cs)))"

definition mapChildren :: "(path \<Rightarrow> element \<Rightarrow> element) \<Rightarrow> path \<Rightarrow> node list \<Rightarrow> node list" where
  "mapChildren g p cs = map (\<lambda>(i, c). mapWithPath g c (p @ [i])) (zip [0..<length cs] cs)"

text \<open>Reflecting properties and \<open>getAttribute\<close>.\<close>

definition getAttribute :: "element \<Rightarrow> string \<Rightarrow> string option" where
  "getAttribute e a = map_of (attrs e) a"

definition attr_or_empty :: "element \<Rightarrow> string \<Rightarrow> string" where
  "attr_or_empty e a = (case getAttribute e a of Some v \<Rightarrow> v | None \<Rightarrow> [])"

definition el_id :: "element \<Rightarrow> string" where
  "el_id e = attr_or_empty e ''id''"

definition el_name :: "element \<Rightarrow> string" where
  "el_name e = attr_or_empty e ''name''"

definition el_placeholder :: "element \<Rightarrow> string" where
  "el_placeholder e = attr_or_empty e ''placeholder''"

definition el_required :: "element \<Rightarrow> bool" where
  "el_required e = (getAttribute e ''required'' \<noteq> None)"

definition tagName :: "element \<Rightarrow> string" where
  "tagName e = toUpperCase (tag e)"

text \<open>The \<open>instanceof\<close> tests of the source.\<close>

definition isSelect :: "element \<Rightarrow> bool" where
  "isSelect e = (tag e = ''select'')"

definition isTextArea :: "element \<Rightarrow> bool" where
  "isTextArea e = (tag e = ''textarea'')"

definition isInput :: "element \<Rightarrow> bool" where
  "isInput e = (tag e = ''input'')"

definition isButton :: "element \<Rightarrow> bool" where
  "isButton e = (tag e = ''button'')"

text \<open>
  \<open>'value' in el\<close> for an element that is no input, select or textarea: the HTML
  interfaces that declare a \<open>value\<close> property.
\<close>

definition hasValueProperty :: "element \<Rightarrow> bool" where
  "hasValueProperty e =
     (tag e \<in> set [''button'', ''data'', ''li'', ''meter'', ''option'', ''output'',
                    ''param'', ''progress''])"

section \<open>The page state and the browser's operations\<close>

text \<open>
  The state of the page as the content script sees it: the reference table of the
  scanner, the document, and the calls the executor has made on elements
  (\<open>el.click()\<close>, \<open>el.focus()\<close>, \<open>el.dispatchEvent(...)\<close>), in order. The browser's
  value sanitization is a parameter: \<open>sanitization st e v\<close> is what the value of the
  control \<open>e\<close> (no select) holds after \<open>v\<close> was assigned to it, \<open>v\<close> itself for a text
  field, the empty string for a number field when \<open>v\<close> is no number. Of what the
  scripts of the page do in response to events, only the cancelling of clicks is
  described.
\<close>

datatype dom_event = Click path | Focus path | Dispatch path string

record page_state =
  refMap :: "string \<rightharpoonup> path"
  url :: string
  title :: string
  doc :: "node list"
  events :: "dom_event list"
  sanitization :: "element \<Rightarrow> string \<Rightarrow> string"

text \<open>
  The value of a select is the value of its selected option; assigning \<open>el.value\<close>
  selects the first option, in tree order, whose value is the assigned string, and
  none if there is no such option (the HTML standard's setter).
\<close>

fun firstIndexWithValue :: "string \<Rightarrow> option_el list \<Rightarrow> nat option" where
  "firstIndexWithValue v [] = None"
| "firstIndexWithValue v (opt # rest) =
     (if opt_value opt = v then Some 0
      else map_option Suc (firstIndexWithValue v rest))"

definition selectedOption :: "element \<Rightarrow> option_el option" where
  "selectedOption e =
     (case selectedIndex e of
        None \<Rightarrow> None
      | Some i \<Rightarrow> (if i < length (options e) then Some (options e ! i) else None))"

definition get_value :: "element \<Rightarrow> string" where
  "get_value e =
     (if isSelect e then (case selectedOption e of Some opt \<Rightarrow> opt_value opt | None \<Rightarrow> [])
      else el_value e)"

definition set_value :: "(element \<Rightarrow> string \<Rightarrow> string) \<Rightarrow> string \<Rightarrow> element \<Rightarrow> element" where
  "set_value san v e =
     (if isSelect e then e\<lparr>selectedIndex := firstIndexWithValue v (options e)\<rparr>
      else e\<lparr>el_value := san e v\<rparr>)"

text \<open>
  The form owner of a control: the form named by its \<open>form\<close> attribute if it has
  one (the first element with that id, if it is a form), its nearest form ancestor
  otherwise; \<open>None\<close> if there is no such form.
\<close>

definition getElementById :: "node list \<Rightarrow> string \<Rightarrow> (path \<times> element \<times> node list) option" where
  "getElementById d i = find (\<lambda>(p, e, cs). getAttribute e ''id'' = Some i) (walkAll d)"

fun closestForm :: "node list \<Rightarrow> path \<Rightarrow> path \<Rightarrow> path option \<Rightarrow> path option" where
  "closestForm ns pre [] acc = acc"
| "closestForm ns pre (i # p) acc =
     (if i < length ns then
        (case ns ! i of
           ElemNode e cs \<Rightarrow>
             closestForm cs (pre @ [i]) p
               (if tag e = ''form'' \<and> p \<noteq> [] then Some (pre @ [i]) else acc)
         | TextNode s \<Rightarrow> None)
      else None)"

definition formOwner :: "node list \<Rightarrow> path \<Rightarrow> element \<Rightarrow> path option" where
  "formOwner d p e =
     (case getAttribute e ''form'' of
        Some i \<Rightarrow>
          (if i = [] then None
           else (case getElementById d i of
                   Some (q, f, cs) \<Rightarrow> (if tag f = ''form'' then Some q else None)
                 | None \<Rightarrow> None))
      | None \<Rightarrow> closestForm d [] p None)"

text \<open>
  The radio button group of the radio button \<open>e\<close> at \<open>p\<close>: the radio buttons of the
  document with the same form owner and the same, non-empty name.
\<close>

definition inRadioGroup :: "node list \<Rightarrow> path \<Rightarrow> element \<Rightarrow> path \<Rightarrow> element \<Rightarrow> bool" where
  "inRadioGroup d p e q x =
     (isInput x \<and> el_type x = ''radio'' \<and> el_name e \<noteq> [] \<and> el_name x = el_name e
      \<and> formOwner d q x = formOwner d p e)"

definition uncheckGroup :: "node list \<Rightarrow> path \<Rightarrow> element \<Rightarrow> node list" where
  "uncheckGroup d p e =
     mapChildren (\<lambda>q x. if inRadioGroup d p e q x then x\<lparr>checked := False\<rparr> else x) [] d"

text \<open>
  The activation behaviour of a control: a checkbox toggles its checkedness; a radio
  button becomes checked and the other radio buttons of its group become unchecked.
  Every other element keeps its state.
\<close>

definition activation :: "path \<Rightarrow> element \<Rightarrow> node list \<Rightarrow> node list" where
  "activation p e d =
     (if isInput e \<and> el_type e = ''checkbox'' then updateAt (\<lambda>x. x\<lparr>checked := \<not> checked x\<rparr>) d p
      else if isInput e \<and> el_type e = ''radio'' then
        updateAt (\<lambda>x. x\<lparr>checked := True\<rparr>) (uncheckGroup d p e) p
      else d)"

text \<open>
  \<open>el.click()\<close>: the call is recorded. On a disabled control the call does nothing.
  Otherwise a click event is dispatched and the activation behaviour follows, unless
  a listener of the page cancels the event: then the control keeps (a checkbox or
  radio button: gets back) the state it had. None of the DOM operations modelled
  here throws, so the \<open>catch\<close> branches of the source are never taken.
\<close>

definition click :: "path \<Rightarrow> element \<Rightarrow> page_state \<Rightarrow> page_state" where
  "click p e st =
     st\<lparr>doc := (if disabled e \<or> clickCancelled e then doc st else activation p e (doc st)),
        events := events st @ [Click p]\<rparr>"

definition focus :: "path \<Rightarrow> page_state \<Rightarrow> page_state" where
  "focus p st = st\<lparr>events := events st @ [Focus p]\<rparr>"

definition dispatchEvent :: "path \<Rightarrow> string \<Rightarrow> page_state \<Rightarrow> page_state" where
  "dispatchEvent p ty st = st\<lparr>events := events st @ [Dispatch p ty]\<rparr>"

definition assignValue :: "path \<Rightarrow> string \<Rightarrow> page_state \<Rightarrow> page_state" where
  "assignValue p v st = st\<lparr>doc := updateAt (set_value (sanitization st) v) (doc st) p\<rparr>"

section \<open>The action executor (\<open>dom-scanner.ts\<close>)\<close>

record action_result =
  ok :: bool
  error :: "string option"

definition success :: action_result where
  "success = \<lparr>ok = True, error = None\<rparr>"

definition failure :: "string \<Rightarrow> action_result" where
  "failure msg = \<lparr>ok = False, error = Some msg\<rparr>"

definition getElementByRef :: "page_state \<Rightarrow> string \<Rightarrow> path option" where
  "getElementByRef st r = refMap st r"

definition fillTextInput :: "path \<Rightarrow> string \<Rightarrow> page_state \<Rightarrow> action_result \<times> page_state" where
  "fillTextInput p v st =
     (let st1 = focus p st;
          st2 = assignValue p [] st1;
          st3 = dispatchEvent p ''input'' st2;
          st4 = assignValue p v st3;
          st5 = dispatchEvent p ''input'' st4;
          st6 = dispatchEvent p ''change'' st5;
          st7 = dispatchEvent p ''blur'' st6
      in (success, st7))"

text \<open>
  The loop of \<open>fillSelect\<close> over \<open>el.options\<close>, with the variable \<open>bestMatch\<close> as
  accumulator; \<open>break\<close> ends the recursion.
\<close>

fun fillSelect_loop :: "string \<Rightarrow> option_el list \<Rightarrow> option_el option \<Rightarrow> option_el option" where
  "fillSelect_loop valueLower [] bestMatch = bestMatch"
| "fillSelect_loop valueLower (opt # rest) bestMatch =
     (let optText = toLowerCase (trim (opt_text opt));
          optValue = toLowerCase (opt_value opt)
      in if optText = valueLower \<or> optValue = valueLower then Some opt
         else if bestMatch = None \<and>
                 (includes_str optText valueLower \<or> includes_str valueLower optText)
         then fillSelect_loop valueLower rest (Some opt)
         else fillSelect_loop valueLower rest bestMatch)"

definition availableOptions :: "element \<Rightarrow> string" where
  "availableOptions e =
     join_str '', '' (map (\<lambda>o'. trim (opt_text o')) (filter (\<lambda>o'. opt_value o' \<noteq> []) (options e)))"

definition fillSelect :: "path \<Rightarrow> element \<Rightarrow> string \<Rightarrow> page_state \<Rightarrow> action_result \<times> page_state" where
  "fillSelect p e v st =
     (let valueLower = trim (toLowerCase v) in
      case fillSelect_loop valueLower (options e) None of
        None \<Rightarrow>
          (failure (''No matching option for '' @ [CHR 0x22] @ v @ [CHR 0x22] @ ''. Available: '' @ availableOptions e), st)
      | Some bestMatch \<Rightarrow>
          (success, dispatchEvent p ''change'' (assignValue p (opt_value bestMatch) st)))"

text \<open>
  \<open>fillFieldByRef\<close> and \<open>clickElementByRef\<close>. The result is \<open>None\<close> only when the
  table binds the reference to a path that names no element of the document (an
  element that has left the page, which this model does not describe). Every scan
  binds its references to elements of the document, and the two actions keep them
  bound, so that they always return a result on such states.
\<close>

definition fillFieldByRef :: "string \<Rightarrow> string \<Rightarrow> page_state \<Rightarrow> (action_result \<times> page_state) option" where
  "fillFieldByRef r v st =
     (case refMap st r of
        None \<Rightarrow> Some (failure (''Element '' @ r @ '' not found''), st)
      | Some p \<Rightarrow>
          (case elemAt (doc st) p of
             None \<Rightarrow> None
           | Some e \<Rightarrow>
               Some (if isSelect e then fillSelect p e v st
                     else if isTextArea e then fillTextInput p v st
                     else if isInput e then
                       (if el_type e = ''checkbox'' then
                          (let shouldCheck = (toLowerCase v \<in> set [''true'', ''yes'', ''1''])
                           in (success, if checked e \<noteq> shouldCheck then click p e st else st))
                        else if el_type e = ''radio'' then
                          (success, if \<not> checked e then click p e st else st)
                        else if el_type e = ''file'' then
                          (failure ''Cannot programmatically fill file inputs'', st)
                        else fillTextInput p v st)
                     else if hasValueProperty e then
                       (success,
                        dispatchEvent p ''change'' (dispatchEvent p ''input'' (assignValue p v st)))
                     else (failure (''Cannot fill element type: '' @ tagName e), st))))"

definition clickElementByRef :: "string \<Rightarrow> page_state \<Rightarrow> (action_result \<times> page_state) option" where
  "clickElementByRef r st =
     (case refMap st r of
        None \<Rightarrow> Some (failure (''Element '' @ r @ '' not found''), st)
      | Some p \<Rightarrow>
          (case elemAt (doc st) p of
             None \<Rightarrow> None
           | Some e \<Rightarrow> Some (success, click p e st)))"

section \<open>The DOM queries of the scanner\<close>

primrec textContent :: "node \<Rightarrow> string" where
  "textContent (TextNode s) = s"
| "textContent (ElemNode e cs) = concat (map textContent cs)"

definition isControl :: "element \<Rightarrow> bool" where
  "isControl e = (tag e \<in> set [''input'', ''select'', ''textarea''])"

text \<open>
  \<open>document.querySelector(`label[for="${CSS.escape(id)}"]`)\<close>; \<open>getElementById\<close> is
  defined with the form owner above.
\<close>

definition labelFor :: "node list \<Rightarrow> string \<Rightarrow> (path \<times> element \<times> node list) option" where
  "labelFor d i =
     find (\<lambda>(p, e, cs). tag e = ''label'' \<and> getAttribute e ''for'' = Some i) (walkAll d)"

text \<open>
  \<open>el.closest('label')\<close>: going down the path of the element, the last label met
  (the element itself included) is its nearest label ancestor.
\<close>

fun closestLabel :: "node list \<Rightarrow> path \<Rightarrow> node option \<Rightarrow> node option" where
  "closestLabel ns [] acc = acc"
| "closestLabel ns (i # p) acc =
     (if i < length ns then
        (case ns ! i of
           ElemNode e cs \<Rightarrow>
             closestLabel cs p (if tag e = ''label'' then Some (ElemNode e cs) else acc)
         | TextNode s \<Rightarrow> None)
      else None)"

text \<open>
  \<open>clone.querySelectorAll('input, select, textarea').forEach((child) => child.remove())\<close>
  on the clone of the label.
\<close>

fun isControlNode :: "node \<Rightarrow> bool" where
  "isControlNode (TextNode s) = False"
| "isControlNode (ElemNode e cs) = isControl e"

primrec removeControls :: "node \<Rightarrow> node" where
  "removeControls (TextNode s) = TextNode s"
| "removeControls (ElemNode e cs) =
     ElemNode e (filter (\<lambda>c. \<not> isControlNode c) (map removeControls cs))"

text \<open>\<open>el.previousElementSibling\<close>.\<close>

fun isElemNode :: "node \<Rightarrow> bool" where
  "isElemNode (TextNode s) = False"
| "isElemNode (ElemNode e cs) = True"

definition siblingsOf :: "node list \<Rightarrow> path \<Rightarrow> node list" where
  "siblingsOf d p =
     (if butlast p = [] then d
      else (case nodeAt d (butlast p) of Some (ElemNode e cs) \<Rightarrow> cs | _ \<Rightarrow> []))"

definition previousElementSibling :: "node list \<Rightarrow> path \<Rightarrow> node option" where
  "previousElementSibling d p =
     (if p = [] then None else find isElemNode (rev (take (last p) (siblingsOf d p))))"

section \<open>The scanner (\<open>dom-scanner.ts\<close>)\<close>

record scanned_field =
  sf_ref :: string
  sf_tag :: string
  sf_type :: string
  sf_label :: string
  sf_name :: string
  sf_value :: string
  sf_placeholder :: string
  sf_required :: bool
  sf_options :: "string list"
  sf_checked :: "bool option"

record scanned_button =
  sb_ref :: string
  sb_text :: string
  sb_type :: string

record page_snapshot =
  snap_url :: string
  snap_title :: string
  snap_fields :: "scanned_field list"
  snap_buttons :: "scanned_button list"

definition isVisible :: "element \<Rightarrow> bool" where
  "isVisible e =
     (if offsetParentNull e \<and> stylePosition e \<noteq> ''fixed'' then False
      else if cssDisplay e = ''none'' \<or> cssVisibility e = ''hidden'' then False
      else if cssOpacity e = ''0'' then False
      else if rectWidth e = 0 \<and> rectHeight e = 0 then False
      else True)"

definition isHiddenInput :: "element \<Rightarrow> bool" where
  "isHiddenInput e = (isInput e \<and> el_type e = ''hidden'')"

definition getFieldType :: "element \<Rightarrow> string" where
  "getFieldType e =
     (if isSelect e then ''select''
      else if isTextArea e then ''textarea''
      else if isInput e then (if el_type e \<noteq> [] then el_type e else ''text'')
      else ''unknown'')"

definition getFieldValue :: "element \<Rightarrow> string" where
  "getFieldValue e =
     (if isSelect e then
        (case selectedOption e of
           Some selected \<Rightarrow> (if opt_value selected \<noteq> [] then trim (opt_text selected) else [])
         | None \<Rightarrow> [])
      else if isInput e \<or> isTextArea e then el_value e
      else [])"

text \<open>
  The name of an element as words:
  \<open>el.name.replace(/[_-]/g, ' ').replace(/([a-z])([A-Z])/g, '$1 $2')\<close>.
\<close>

definition is_lower :: "char \<Rightarrow> bool" where
  "is_lower c = (c \<in> set ''abcdefghijklmnopqrstuvwxyz'')"

definition is_upper :: "char \<Rightarrow> bool" where
  "is_upper c = (c \<in> set ''ABCDEFGHIJKLMNOPQRSTUVWXYZ'')"

fun decamel :: "string \<Rightarrow> string" where
  "decamel (a # b # s) =
     (if is_lower a \<and> is_upper b then a # CHR '' '' # b # decamel s else a # decamel (b # s))"
| "decamel s = s"

definition nameWords :: "string \<Rightarrow> string" where
  "nameWords n = decamel (map (\<lambda>c. if c = CHR ''_'' \<or> c = CHR ''-'' then CHR '' '' else c) n)"

definition truthyAttr :: "element \<Rightarrow> string \<Rightarrow> string option" where
  "truthyAttr e a = (case getAttribute e a of Some v \<Rightarrow> (if v \<noteq> [] then Some v else None) | None \<Rightarrow> None)"

definition findLabel :: "node list \<Rightarrow> path \<Rightarrow> element \<Rightarrow> string" where
  "findLabel d p e =
     (case (if el_id e \<noteq> [] then labelFor d (el_id e) else None) of
        Some (lp, le, lcs) \<Rightarrow> trim (textContent (ElemNode le lcs))
      | None \<Rightarrow>
          (let text = (case closestLabel d p None of
                         Some parentLabel \<Rightarrow> trim (textContent (removeControls parentLabel))
                       | None \<Rightarrow> [])
           in if text \<noteq> [] then text
              else
                (case truthyAttr e ''aria-label'' of
                   Some ariaLabel \<Rightarrow> trim ariaLabel
                 | None \<Rightarrow>
                     (case (case truthyAttr e ''aria-labelledby'' of
                              Some labelledBy \<Rightarrow> getElementById d labelledBy
                            | None \<Rightarrow> None) of
                        Some (qp, qe, qcs) \<Rightarrow> trim (textContent (ElemNode qe qcs))
                      | None \<Rightarrow>
                          (let prevText =
                                 (case previousElementSibling d p of
                                    Some (ElemNode pe pcs) \<Rightarrow>
                                      (if tagName pe \<noteq> ''INPUT'' \<and> tagName pe \<noteq> ''SELECT''
                                       then trim (textContent (ElemNode pe pcs)) else [])
                                  | _ \<Rightarrow> [])
                           in if prevText \<noteq> [] \<and> length prevText < 100 then prevText
                              else if isInput e \<and> el_placeholder e \<noteq> [] then el_placeholder e
                              else if isInput e \<and> el_name e \<noteq> [] then nameWords (el_name e)
                              else [])))))"

definition getButtonText :: "element \<Rightarrow> node list \<Rightarrow> string" where
  "getButtonText e cs =
     (if isInput e then el_value e
      else (let text = trim (textContent (ElemNode e cs))
            in if text \<noteq> [] then text
               else (let aria = (case getAttribute e ''aria-label'' of Some a \<Rightarrow> trim a | None \<Rightarrow> [])
                     in if aria \<noteq> [] then aria
                        else (case getAttribute e ''title'' of Some t \<Rightarrow> trim t | None \<Rightarrow> []))))"

text \<open>The selectors of the three \<open>querySelectorAll\<close> calls.\<close>

definition isFormElement :: "element \<Rightarrow> bool" where
  "isFormElement e = isControl e"

definition isButtonElement :: "element \<Rightarrow> bool" where
  "isButtonElement e =
     (tag e = ''button''
      \<or> (tag e = ''input'' \<and>
           (case getAttribute e ''type'' of
              Some t \<Rightarrow> toLowerCase t = ''submit'' \<or> toLowerCase t = ''button''
            | None \<Rightarrow> False))
      \<or> getAttribute e ''role'' = Some ''button'')"

definition isLinkButton :: "element \<Rightarrow> bool" where
  "isLinkButton e =
     (tag e = ''a'' \<and>
       (case getAttribute e ''class'' of
          Some c \<Rightarrow> includes_str c ''btn'' \<or> includes_str c ''button'' \<or> includes_str c ''Button''
                   \<or> includes_str c ''next'' \<or> includes_str c ''submit''
        | None \<Rightarrow> False))"

text \<open>
  The three loops of \<open>scanPage\<close>, each over the elements its selector matched, with the
  counter, the reference table and the output array as accumulators.
\<close>

definition scanField :: "node list \<Rightarrow> string \<Rightarrow> path \<Rightarrow> element \<Rightarrow> scanned_field" where
  "scanField d r p e =
     \<lparr>sf_ref = r,
      sf_tag = toLowerCase (tagName e),
      sf_type = getFieldType e,
      sf_label = findLabel d p e,
      sf_name = el_name e,
      sf_value = getFieldValue e,
      sf_placeholder = (if isInput e \<or> isTextArea e then el_placeholder e else []),
      sf_required = el_required e,
      sf_options =
        (if isSelect e
         then map (\<lambda>opt. trim (opt_text opt)) (filter (\<lambda>opt. opt_value opt \<noteq> []) (options e))
         else []),
      sf_checked =
        (if isInput e \<and> (el_type e = ''checkbox'' \<or> el_type e = ''radio'')
         then Some (checked e) else None)\<rparr>"

fun scanFields ::
  "node list \<Rightarrow> (path \<times> element \<times> node list) list \<Rightarrow> nat \<Rightarrow> (string \<rightharpoonup> path) \<Rightarrow> scanned_field list
    \<Rightarrow> nat \<times> (string \<rightharpoonup> path) \<times> scanned_field list" where
  "scanFields d [] fieldIdx rm fs = (fieldIdx, rm, fs)"
| "scanFields d ((p, e, cs) # rest) fieldIdx rm fs =
     (if \<not> isVisible e \<or> isHiddenInput e then scanFields d rest fieldIdx rm fs
      else (let r = ''f'' @ string_of_nat fieldIdx
            in scanFields d rest (Suc fieldIdx) (rm(r \<mapsto> p)) (fs @ [scanField d r p e])))"

fun scanButtons ::
  "(path \<times> element \<times> node list) list \<Rightarrow> nat \<Rightarrow> (string \<rightharpoonup> path) \<Rightarrow> scanned_button list
    \<Rightarrow> nat \<times> (string \<rightharpoonup> path) \<times> scanned_button list" where
  "scanButtons [] buttonIdx rm bs = (buttonIdx, rm, bs)"
| "scanButtons ((p, e, cs) # rest) buttonIdx rm bs =
     (if \<not> isVisible e then scanButtons rest buttonIdx rm bs
      else (let text = getButtonText e cs
            in if text = [] then scanButtons rest buttonIdx rm bs
               else (let r = ''b'' @ string_of_nat buttonIdx
                     in scanButtons rest (Suc buttonIdx) (rm(r \<mapsto> p))
                          (bs @ [\<lparr>sb_ref = r, sb_text = text,
                                  sb_type = (if isButton e
                                             then (if el_type e \<noteq> [] then el_type e else ''button'')
                                             else ''button'')\<rparr>]))))"

fun scanLinks ::
  "(path \<times> element \<times> node list) list \<Rightarrow> nat \<Rightarrow> (string \<rightharpoonup> path) \<Rightarrow> scanned_button list
    \<Rightarrow> nat \<times> (string \<rightharpoonup> path) \<times> scanned_button list" where
  "scanLinks [] buttonIdx rm bs = (buttonIdx, rm, bs)"
| "scanLinks ((p, e, cs) # rest) buttonIdx rm bs =
     (if \<not> isVisible e then scanLinks rest buttonIdx rm bs
      else (let text = trim (textContent (ElemNode e cs))
            in if text = [] then scanLinks rest buttonIdx rm bs
               else (let r = ''b'' @ string_of_nat buttonIdx
                     in scanLinks rest (Suc buttonIdx) (rm(r \<mapsto> p))
                          (bs @ [\<lparr>sb_ref = r, sb_text = text, sb_type = ''link''\<rparr>]))))"

definition scanPage :: "page_state \<Rightarrow> page_snapshot \<times> page_state" where
  "scanPage st =
     (let cleared = Map.empty;
          els = walkAll (doc st);
          (fieldIdx, rm1, fs) =
             scanFields (doc st) (filter (\<lambda>(p, e, cs). isFormElement e) els) 0 cleared [];
          (buttonIdx, rm2, bs) =
             scanButtons (filter (\<lambda>(p, e, cs). isButtonElement e) els) 0 rm1 [];
          (buttonIdx', rm3, bs') =
             scanLinks (filter (\<lambda>(p, e, cs). isLinkButton e) els) buttonIdx rm2 bs
      in (\<lparr>snap_url = url st, snap_title = title st, snap_fields = fs, snap_buttons = bs'\<rparr>,
          st\<lparr>refMap := rm3\<rparr>))"

definition snapshotRefs :: "page_snapshot \<Rightarrow> string set" where
  "snapshotRefs s = set (map sf_ref (snap_fields s)) \<union> set (map sb_ref (snap_buttons s))"

text \<open>
  The label of an element as the specification words it: seven sources, tried in
  order, the first that yields non-empty text; the empty string if none does.
  \<open>spec_findLabel\<close> follows those words; \<open>designed_findLabel\<close> differs from it in
  the last two sources only, which the source reads from \<open>input\<close> elements alone.
\<close>

definition labelForText :: "node list \<Rightarrow> element \<Rightarrow> string option" where
  "labelForText d e =
     (if el_id e \<noteq> [] then
        (case labelFor d (el_id e) of
           Some (lp, le, lcs) \<Rightarrow> Some (trim (textContent (ElemNode le lcs)))
         | None \<Rightarrow> None)
      else None)"

definition ancestorLabelText :: "node list \<Rightarrow> path \<Rightarrow> string" where
  "ancestorLabelText d p =
     (case closestLabel d p None of
        Some parentLabel \<Rightarrow> trim (textContent (removeControls parentLabel))
      | None \<Rightarrow> [])"

definition ariaLabelText :: "element \<Rightarrow> string option" where
  "ariaLabelText e = map_option trim (truthyAttr e ''aria-label'')"

definition labelledByText :: "node list \<Rightarrow> element \<Rightarrow> string option" where
  "labelledByText d e =
     (case truthyAttr e ''aria-labelledby'' of
        Some labelledBy \<Rightarrow>
          (case getElementById d labelledBy of
             Some (qp, qe, qcs) \<Rightarrow> Some (trim (textContent (ElemNode qe qcs)))
           | None \<Rightarrow> None)
      | None \<Rightarrow> None)"

definition precedingSiblingText :: "node list \<Rightarrow> path \<Rightarrow> string" where
  "precedingSiblingText d p =
     (case previousElementSibling d p of
        Some (ElemNode pe pcs) \<Rightarrow>
          (if tagName pe \<noteq> ''INPUT'' \<and> tagName pe \<noteq> ''SELECT''
              \<and> length (trim (textContent (ElemNode pe pcs))) < 100
           then trim (textContent (ElemNode pe pcs)) else [])
      | _ \<Rightarrow> [])"

definition textOrEmpty :: "string option \<Rightarrow> string" where
  "textOrEmpty t = (case t of Some s \<Rightarrow> s | None \<Rightarrow> [])"

definition firstNonEmpty :: "string list \<Rightarrow> string" where
  "firstNonEmpty candidates = (case find (\<lambda>s. s \<noteq> []) candidates of Some s \<Rightarrow> s | None \<Rightarrow> [])"

definition spec_findLabel :: "node list \<Rightarrow> path \<Rightarrow> element \<Rightarrow> string" where
  "spec_findLabel d p e =
     firstNonEmpty
       [textOrEmpty (labelForText d e),
        ancestorLabelText d p,
        textOrEmpty (ariaLabelText e),
        textOrEmpty (labelledByText d e),
        precedingSiblingText d p,
        el_placeholder e,
        nameWords (el_name e)]"

definition designed_findLabel :: "node list \<Rightarrow> path \<Rightarrow> element \<Rightarrow> string" where
  "designed_findLabel d p e =
     firstNonEmpty
       [textOrEmpty (labelForText d e),
        ancestorLabelText d p,
        textOrEmpty (ariaLabelText e),
        textOrEmpty (labelledByText d e),
        precedingSiblingText d p,
        (if isInput e then el_placeholder e else []),
        (if isInput e then nameWords (el_name e) else [])]"

text \<open>
  No label found through \<open>for\<close>, no \<open>aria-label\<close> and no element found through
  \<open>aria-labelledby\<close> has blank text.
\<close>

definition foundTextsNonEmpty :: "node list \<Rightarrow> element \<Rightarrow> bool" where
  "foundTextsNonEmpty d e =
     (labelForText d e \<noteq> Some [] \<and> ariaLabelText e \<noteq> Some [] \<and> labelledByText d e \<noteq> Some [])"

text \<open>The two ways in which \<open>fillSelect\<close> lets an option match the lower-cased, trimmed value.\<close>

definition matchesExactly :: "string \<Rightarrow> option_el \<Rightarrow> bool" where
  "matchesExactly valueLower opt =
     (toLowerCase (trim (opt_text opt)) = valueLower \<or> toLowerCase (opt_value opt) = valueLower)"

definition matchesPartially :: "string \<Rightarrow> option_el \<Rightarrow> bool" where
  "matchesPartially valueLower opt =
     (includes_str (toLowerCase (trim (opt_text opt))) valueLower
      \<or> includes_str valueLower (toLowerCase (trim (opt_text opt))))"

definition truthyValue :: "string \<Rightarrow> bool" where
  "truthyValue v = (toLowerCase v = ''true'' \<or> toLowerCase v = ''yes'' \<or> toLowerCase v = ''1'')"

text \<open>
  What \<open>fillSelect\<close> does with the option it settled on: it assigns the option's
  value to the select and dispatches a \<open>change\<close> event.
\<close>

definition chooseOption :: "path \<Rightarrow> option_el \<Rightarrow> page_state \<Rightarrow> page_state" where
  "chooseOption p opt st = dispatchEvent p ''change'' (assignValue p (opt_value opt) st)"

text \<open>
  Notions for the proofs about the table: the node reached from a node by a relative
  path, and a table all of whose references name an element of the document.
\<close>

fun subAt :: "node \<Rightarrow> path \<Rightarrow> node option" where
  "subAt n [] = Some n"
| "subAt (TextNode s) (i # q) = None"
| "subAt (ElemNode e cs) (i # q) = (if i < length cs then subAt (cs ! i) q else None)"

definition boundIn :: "node list \<Rightarrow> (string \<rightharpoonup> path) \<Rightarrow> bool" where
  "boundIn d rm = (\<forall>r p. rm r = Some p \<longrightarrow> elemAt d p \<noteq> None)"

definition tableBound :: "page_state \<Rightarrow> bool" where
  "tableBound st = boundIn (doc st) (refMap st)"

section \<open>The question gate of the overlay (\<open>overlay-ui.ts\<close>)\<close>

text \<open>
  \<open>showQuestion\<close> returns a promise and leaves an input and a submit button in the
  question section. The gate holds the value of the input, whether the section still
  shows the controls, and the state of the promise (\<open>None\<close> while pending). A promise
  settles once: \<open>resolve\<close> on a settled promise changes nothing. The events are what
  the human does: editing the input (its new content), clicking the submit button,
  pressing a key in the input.
\<close>

record question_gate =
  heading :: string
  inputValue :: string
  sectionShown :: bool
  promise :: "string option"

datatype ui_event = SetInput string | ClickSubmit | KeyDown string

definition showQuestion :: "string \<Rightarrow> question_gate" where
  "showQuestion question =
     \<lparr>heading = question, inputValue = [], sectionShown = True, promise = None\<rparr>"

definition resolve :: "string \<Rightarrow> question_gate \<Rightarrow> question_gate" where
  "resolve answer g = (if promise g = None then g\<lparr>promise := Some answer\<rparr> else g)"

definition submit :: "question_gate \<Rightarrow> question_gate" where
  "submit g =
     (let answer = trim (inputValue g)
      in if answer \<noteq> [] then resolve answer (g\<lparr>sectionShown := False\<rparr>) else g)"

fun deliver :: "question_gate \<Rightarrow> ui_event \<Rightarrow> question_gate" where
  "deliver g (SetInput s) = g\<lparr>inputValue := s\<rparr>"
| "deliver g ClickSubmit = submit g"
| "deliver g (KeyDown k) = (if k = ''Enter'' then submit g else g)"

definition isSubmit :: "ui_event \<Rightarrow> bool" where
  "isSubmit ev = (ev = ClickSubmit \<or> ev = KeyDown ''Enter'')"

section \<open>The session relay (the background worker)\<close>

text \<open>
  The registry maps a tab to its session. An \<open>EventSource\<close> is a handle into the list
  of streams ever opened; a stream remembers the tab its handlers were installed for
  and whether it was closed. The trace lists, in order, the requests sent to the
  backend, the streams opened and closed, and the messages sent to tabs.

  \<open>handleMessage\<close> is an \<open>async\<close> function, and the listener answers \<open>true\<close>: at every
  \<open>await\<close> the handler is suspended and the worker goes on with other events. A
  suspended handler is a task: the \<open>await\<close> it waits at and the variables it holds
  (\<open>tabId\<close>, and for STOP the \<open>session\<close> object it read from the registry). The
  worker keeps its suspended handlers in \<open>pending\<close>.
\<close>

record session =
  sessionId :: string
  eventSource :: nat

record stream =
  streamSessionId :: string
  targetTabId :: nat
  streamClosed :: bool

datatype effect =
    CloseStream nat
  | StopRequest string
  | StartRequest
  | OpenStream string
  | SetStatusMessage nat string string

datatype task =
    ActivateQuery
  | ActivateStopping nat
  | ActivateStarting nat
  | StopQuery
  | StopStopping nat session

record relay_state =
  sessions :: "nat \<rightharpoonup> session"
  streams :: "stream list"
  trace :: "effect list"
  pending :: "task list"

datatype response = ErrorResponse string | Activated string | OkResponse

text \<open>
  What an \<open>await\<close> resumes with: the active tab found by \<open>chrome.tabs.query\<close> (if
  any); the stop request settled (fulfilled or rejected, \<open>.catch(() => {})\<close> makes
  no difference); the start request answered, \<open>Inr\<close> the session id, \<open>Inl\<close> the text
  of the error thrown. A stretch of a handler ends suspended at the next \<open>await\<close>, or
  with the response it returns.
\<close>

datatype answer = ActiveTab "nat option" | Settled | Started "string + string"

datatype outcome = Suspended task | Returned response

definition truthyTab :: "nat option \<Rightarrow> nat option" where
  "truthyTab t = (case t of Some n \<Rightarrow> (if n \<noteq> 0 then Some n else None) | None \<Rightarrow> None)"

definition resolveTabId :: "nat option \<Rightarrow> nat option \<Rightarrow> nat option" where
  "resolveTabId senderTab activeTab =
     (case truthyTab senderTab of Some t \<Rightarrow> Some t | None \<Rightarrow> truthyTab activeTab)"

definition closeStream :: "nat \<Rightarrow> relay_state \<Rightarrow> relay_state" where
  "closeStream h st =
     st\<lparr>streams := (streams st)[h := (streams st ! h)\<lparr>streamClosed := True\<rparr>],
        trace := trace st @ [CloseStream h]\<rparr>"

definition stopAutofill :: "string \<Rightarrow> relay_state \<Rightarrow> relay_state" where
  "stopAutofill sid st = st\<lparr>trace := trace st @ [StopRequest sid]\<rparr>"

definition startAutofill :: "relay_state \<Rightarrow> relay_state" where
  "startAutofill st = st\<lparr>trace := trace st @ [StartRequest]\<rparr>"

definition deleteSession :: "nat \<Rightarrow> relay_state \<Rightarrow> relay_state" where
  "deleteSession tabId st = st\<lparr>sessions := (sessions st)(tabId := None)\<rparr>"

definition createStatusStream :: "string \<Rightarrow> nat \<Rightarrow> relay_state \<Rightarrow> relay_state" where
  "createStatusStream sid tabId st =
     st\<lparr>streams := streams st @ [\<lparr>streamSessionId = sid, targetTabId = tabId, streamClosed = False\<rparr>],
        trace := trace st @ [OpenStream sid]\<rparr>"

definition sendStopped :: "nat \<Rightarrow> relay_state \<Rightarrow> relay_state" where
  "sendStopped tabId st = st\<lparr>trace := trace st @ [SetStatusMessage tabId ''stopped'' ''Stopped.'']\<rparr>"

text \<open>
  The stretches of the ACTIVATE handler between its \<open>await\<close>s. \<open>activateEntry\<close>: from
  the message to the first \<open>await\<close>, which is the tab query when the sender has no
  tab id. \<open>activateFrom\<close>: from \<open>if (!tabId)\<close> on, up to \<open>await stopAutofill\<close> when the
  tab has a session (the stream is closed and the stop request sent before the
  handler is suspended), up to \<open>await startAutofill\<close> when it has none.
  \<open>registerSession\<close>: \<open>createStatusStream\<close> and \<open>sessions.set\<close>.
\<close>

definition registerSession :: "nat \<Rightarrow> string \<Rightarrow> relay_state \<Rightarrow> relay_state" where
  "registerSession tabId session_id st =
     (let es = length (streams st);
          st1 = createStatusStream session_id tabId st
      in st1\<lparr>sessions := (sessions st1)(tabId \<mapsto> \<lparr>sessionId = session_id, eventSource = es\<rparr>)\<rparr>)"

definition activateFrom :: "nat option \<Rightarrow> relay_state \<Rightarrow> outcome \<times> relay_state" where
  "activateFrom tab st =
     (case truthyTab tab of
        None \<Rightarrow> (Returned (ErrorResponse ''No tab ID''), st)
      | Some tabId \<Rightarrow>
          (case sessions st tabId of
             Some existing \<Rightarrow>
               (Suspended (ActivateStopping tabId),
                stopAutofill (sessionId existing) (closeStream (eventSource existing) st))
           | None \<Rightarrow> (Suspended (ActivateStarting tabId), startAutofill st)))"

definition activateEntry :: "nat option \<Rightarrow> relay_state \<Rightarrow> outcome \<times> relay_state" where
  "activateEntry senderTab st =
     (case truthyTab senderTab of
        Some tabId \<Rightarrow> activateFrom senderTab st
      | None \<Rightarrow> (Suspended ActivateQuery, st))"

text \<open>
  The stretches of the STOP handler: with a session in the registry the stop request
  is sent and the handler suspended, holding the session it read.
\<close>

definition stopFrom :: "nat option \<Rightarrow> relay_state \<Rightarrow> outcome \<times> relay_state" where
  "stopFrom tab st =
     (case truthyTab tab of
        None \<Rightarrow> (Returned (ErrorResponse ''No tab ID''), st)
      | Some tabId \<Rightarrow>
          (case sessions st tabId of
             Some s \<Rightarrow> (Suspended (StopStopping tabId s), stopAutofill (sessionId s) st)
           | None \<Rightarrow> (Returned OkResponse, st)))"

definition stopEntry :: "nat option \<Rightarrow> relay_state \<Rightarrow> outcome \<times> relay_state" where
  "stopEntry senderTab st =
     (case truthyTab senderTab of
        Some tabId \<Rightarrow> stopFrom senderTab st
      | None \<Rightarrow> (Suspended StopQuery, st))"

text \<open>
  A suspended handler resumes with the answer to what it waits for and runs to its
  next \<open>await\<close> or to its response; \<open>None\<close> when the answer is not of the kind the task
  waits for. After \<open>await stopAutofill\<close> the ACTIVATE handler deletes the entry the
  registry has for the tab at that moment and sends the start request; the STOP
  handler closes the stream of the session it holds and deletes the entry the registry
  has for the tab at that moment.
\<close>

fun continueTask :: "task \<Rightarrow> answer \<Rightarrow> relay_state \<Rightarrow> (outcome \<times> relay_state) option" where
  "continueTask ActivateQuery (ActiveTab t) st = Some (activateFrom t st)"
| "continueTask (ActivateStopping tabId) Settled st =
     Some (Suspended (ActivateStarting tabId), startAutofill (deleteSession tabId st))"
| "continueTask (ActivateStarting tabId) (Started (Inl err)) st =
     Some (Returned (ErrorResponse err), st)"
| "continueTask (ActivateStarting tabId) (Started (Inr session_id)) st =
     Some (Returned (Activated session_id), registerSession tabId session_id st)"
| "continueTask StopQuery (ActiveTab t) st = Some (stopFrom t st)"
| "continueTask (StopStopping tabId s) Settled st =
     Some (Returned OkResponse,
           sendStopped tabId (deleteSession tabId (closeStream (eventSource s) st)))"
| "continueTask k a st = None"

text \<open>
  The steps of the worker on messages. \<open>receive\<close>: a message arrives and its handler
  runs its first stretch; if it ends suspended, its task joins \<open>pending\<close>. \<open>resume\<close>:
  the task at position \<open>i\<close> gets its answer; it stays in place when it is suspended
  again and leaves \<open>pending\<close> when it returns. The response, when there is one, goes
  to the sender of the message.
\<close>

definition receive :: "outcome \<times> relay_state \<Rightarrow> response option \<times> relay_state" where
  "receive x =
     (case fst x of
        Suspended k \<Rightarrow> (None, (snd x)\<lparr>pending := pending (snd x) @ [k]\<rparr>)
      | Returned r \<Rightarrow> (Some r, snd x))"

definition settle :: "nat \<Rightarrow> outcome \<times> relay_state \<Rightarrow> response option \<times> relay_state" where
  "settle i x =
     (case fst x of
        Suspended k \<Rightarrow> (None, (snd x)\<lparr>pending := (pending (snd x))[i := k]\<rparr>)
      | Returned r \<Rightarrow>
          (Some r, (snd x)\<lparr>pending := take i (pending (snd x)) @ drop (Suc i) (pending (snd x))\<rparr>))"

definition resume :: "nat \<Rightarrow> answer \<Rightarrow> relay_state \<Rightarrow> response option \<times> relay_state" where
  "resume i a st =
     (if i < length (pending st) then
        (case continueTask (pending st ! i) a st of
           Some x \<Rightarrow> settle i x
         | None \<Rightarrow> (None, st))
      else (None, st))"

text \<open>
  \<open>eventSource.onerror\<close> of the stream with handle \<open>h\<close>: the handler closes its own
  stream and deletes the registry entry of the tab it was installed for.
\<close>

definition onerror :: "nat \<Rightarrow> relay_state \<Rightarrow> relay_state" where
  "onerror h st =
     (if h < length (streams st)
      then deleteSession (targetTabId (streams st ! h)) (closeStream h st)
      else st)"

text \<open>\<open>chrome.tabs.onRemoved\<close>: the stop request is sent and not awaited.\<close>

definition onRemoved :: "nat \<Rightarrow> relay_state \<Rightarrow> relay_state" where
  "onRemoved tabId st =
     (case sessions st tabId of
        Some s \<Rightarrow> deleteSession tabId (stopAutofill (sessionId s) (closeStream (eventSource s) st))
      | None \<Rightarrow> st)"

definition initialRelay :: relay_state where
  "initialRelay = \<lparr>sessions = Map.empty, streams = [], trace = [], pending = []\<rparr>"

definition isOpen :: "relay_state \<Rightarrow> nat \<Rightarrow> bool" where
  "isOpen st h = (h < length (streams st) \<and> \<not> streamClosed (streams st ! h))"

text \<open>
  The states the worker can be in: messages arrive, suspended handlers resume in any
  order and with any answer, streams that are open report errors, tabs are removed.
  The handlers of the other messages and the relaying of push events to tabs read
  the registry at most; they are left out.
\<close>

inductive reachable :: "relay_state \<Rightarrow> bool" where
  initial: "reachable initialRelay"
| activate_message: "reachable st \<Longrightarrow> reachable (snd (receive (activateEntry senderTab st)))"
| stop_message: "reachable st \<Longrightarrow> reachable (snd (receive (stopEntry senderTab st)))"
| resumed: "reachable st \<Longrightarrow> reachable (snd (resume i a st))"
| stream_error: "reachable st \<Longrightarrow> isOpen st h \<Longrightarrow> reachable (onerror h st)"
| tab_removed: "reachable st \<Longrightarrow> reachable (onRemoved tabId st)"

text \<open>
  A handler that nothing interrupts: no other event is handled between its message
  and its response. Its task is the last of \<open>pending\<close> while it is suspended, and
  each of its \<open>await\<close>s (a handler has at most three) resumes before anything else
  happens, with the answers \<open>ans\<close> gives.
\<close>

definition resumeLast ::
  "(task \<Rightarrow> answer) \<Rightarrow> response option \<times> relay_state \<Rightarrow> response option \<times> relay_state" where
  "resumeLast ans x =
     (case fst x of
        Some r \<Rightarrow> x
      | None \<Rightarrow>
          (if pending (snd x) = [] then x
           else resume (length (pending (snd x)) - 1) (ans (last (pending (snd x)))) (snd x)))"

definition uninterrupted ::
  "(task \<Rightarrow> answer) \<Rightarrow> response option \<times> relay_state \<Rightarrow> response option \<times> relay_state" where
  "uninterrupted ans x = resumeLast ans (resumeLast ans (resumeLast ans x))"

definition answerFor :: "nat option \<Rightarrow> string + string \<Rightarrow> task \<Rightarrow> answer" where
  "answerFor activeTab startResult k =
     (case k of
        ActivateQuery \<Rightarrow> ActiveTab activeTab
      | ActivateStopping t \<Rightarrow> Settled
      | ActivateStarting t \<Rightarrow> Started startResult
      | StopQuery \<Rightarrow> ActiveTab activeTab
      | StopStopping t s \<Rightarrow> Settled)"

text \<open>
  The two handlers read from the message to the response, as the source has them: what
  an uninterrupted handler does (lemmas \<open>handleACTIVATE_uninterrupted\<close> and
  \<open>handleSTOP_uninterrupted\<close> below), the answers of the active-tab query and of the
  start request being inputs.
\<close>

definition handleACTIVATE ::
  "nat option \<Rightarrow> nat option \<Rightarrow> string + string \<Rightarrow> relay_state \<Rightarrow> response \<times> relay_state" where
  "handleACTIVATE senderTab activeTab startResult st =
     (case resolveTabId senderTab activeTab of
        None \<Rightarrow> (ErrorResponse ''No tab ID'', st)
      | Some tabId \<Rightarrow>
          (let st1 = (case sessions st tabId of
                        Some existing \<Rightarrow>
                          deleteSession tabId
                            (stopAutofill (sessionId existing) (closeStream (eventSource existing) st))
                      | None \<Rightarrow> st);
               st2 = st1\<lparr>trace := trace st1 @ [StartRequest]\<rparr>
           in case startResult of
                Inl err \<Rightarrow> (ErrorResponse err, st2)
              | Inr session_id \<Rightarrow>
                  (let es = length (streams st2);
                       st3 = createStatusStream session_id tabId st2
                   in (Activated session_id,
                       st3\<lparr>sessions := (sessions st3)(tabId \<mapsto> \<lparr>sessionId = session_id, eventSource = es\<rparr>)\<rparr>))))"

definition handleSTOP :: "nat option \<Rightarrow> nat option \<Rightarrow> relay_state \<Rightarrow> response \<times> relay_state" where
  "handleSTOP senderTab activeTab st =
     (case resolveTabId senderTab activeTab of
        None \<Rightarrow> (ErrorResponse ''No tab ID'', st)
      | Some tabId \<Rightarrow>
          (OkResponse,
           (case sessions st tabId of
              Some s \<Rightarrow>
                (let st1 = deleteSession tabId
                             (closeStream (eventSource s) (stopAutofill (sessionId s) st))
                 in st1\<lparr>trace := trace st1 @ [SetStatusMessage tabId ''stopped'' ''Stopped.'']\<rparr>)
            | None \<Rightarrow> st)))"

text \<open>
  The states the worker reaches when no handler is ever interrupted: every message
  is handled to its response before the next event.
\<close>

inductive serial :: "relay_state \<Rightarrow> bool" where
  initial: "serial initialRelay"
| activate:
    "serial st \<Longrightarrow>
       serial (snd (uninterrupted (answerFor activeTab startResult) (receive (activateEntry senderTab st))))"
| stop:
    "serial st \<Longrightarrow>
       serial (snd (uninterrupted (answerFor activeTab startResult) (receive (stopEntry senderTab st))))"
| stream_error: "serial st \<Longrightarrow> isOpen st h \<Longrightarrow> serial (onerror h st)"
| tab_removed: "serial st \<Longrightarrow> serial (onRemoved tabId st)"

text \<open>
  The registry and the streams agree. \<open>registered\<close>: the stream of a registered session
  exists and was installed for that tab. \<open>relay_inv\<close>: moreover every stream still
  open is the one registered for its tab, hence no tab has two open streams.
\<close>

definition registered :: "relay_state \<Rightarrow> bool" where
  "registered st =
     (\<forall>t s. sessions st t = Some s \<longrightarrow>
          eventSource s < length (streams st) \<and> targetTabId (streams st ! eventSource s) = t)"


text \<open>
  Two stages of \<open>handleACTIVATE\<close>, named for the proofs: the state after the teardown
  of the session that exists, if any, and the state after a successful start.
\<close>

definition afterTeardown :: "nat \<Rightarrow> relay_state \<Rightarrow> relay_state" where
  "afterTeardown tabId st =
     (case sessions st tabId of
        Some existing \<Rightarrow>
          deleteSession tabId (stopAutofill (sessionId existing) (closeStream (eventSource existing) st))
      | None \<Rightarrow> st)"


section \<open>Example pages and states\<close>

definition visibleElement :: "string \<Rightarrow> (string \<times> string) list \<Rightarrow> string \<Rightarrow> element" where
  "visibleElement t as ty =
     \<lparr>tag = t, attrs = as, el_type = ty, el_value = [], checked = False, disabled = False,
      clickCancelled = False, options = [],
      selectedIndex = None, offsetParentNull = False, stylePosition = [],
      cssDisplay = ''block'', cssVisibility = ''visible'', cssOpacity = ''1'',
      rectWidth = 100, rectHeight = 20\<rparr>"

definition pageOf :: "node list \<Rightarrow> page_state" where
  "pageOf d =
     \<lparr>refMap = Map.empty, url = ''about:blank'', title = [], doc = d, events = [],
      sanitization = (\<lambda>e v. v)\<rparr>"

text \<open>
  A form with an unchecked checkbox, a checked checkbox and a radio button, as the
  scanner leaves it: \<open>f0\<close>, \<open>f1\<close> and \<open>f2\<close> name the three controls.
\<close>

definition ex_controls_doc :: "node list" where
  "ex_controls_doc =
     [ElemNode (visibleElement ''form'' [] [])
        [ElemNode (visibleElement ''input'' [(''name'', ''agree'')] ''checkbox'') [],
         ElemNode ((visibleElement ''input'' [(''name'', ''news'')] ''checkbox'')\<lparr>checked := True\<rparr>) [],
         ElemNode (visibleElement ''input'' [(''name'', ''plan'')] ''radio'') []]]"

definition ex_controls :: page_state where
  "ex_controls = snd (scanPage (pageOf ex_controls_doc))"

text \<open>
  A form with two disabled checkboxes, the first unchecked and the second checked, and
  an unchecked checkbox whose click a listener of the page cancels, as the scanner
  leaves it: all three are visible, so \<open>f0\<close>, \<open>f1\<close> and \<open>f2\<close> name them.
\<close>

definition ex_inert_doc :: "node list" where
  "ex_inert_doc =
     [ElemNode (visibleElement ''form'' [] [])
        [ElemNode ((visibleElement ''input'' [(''name'', ''agree''), (''disabled'', [])] ''checkbox'')
                     \<lparr>disabled := True\<rparr>) [],
         ElemNode ((visibleElement ''input'' [(''name'', ''news''), (''disabled'', [])] ''checkbox'')
                     \<lparr>checked := True, disabled := True\<rparr>) [],
         ElemNode ((visibleElement ''input'' [(''name'', ''terms'')] ''checkbox'')
                     \<lparr>clickCancelled := True\<rparr>) []]]"

definition ex_inert :: page_state where
  "ex_inert = snd (scanPage (pageOf ex_inert_doc))"

text \<open>A select with a placeholder option and three colours, as the scanner leaves it.\<close>

definition ex_colours :: "option_el list" where
  "ex_colours =
     [\<lparr>opt_text = ''Choose...'', opt_value = []\<rparr>,
      \<lparr>opt_text = '' Dark Red '', opt_value = ''dr''\<rparr>,
      \<lparr>opt_text = ''Red'', opt_value = ''r''\<rparr>,
      \<lparr>opt_text = ''Green'', opt_value = ''g''\<rparr>]"

definition ex_select_el :: element where
  "ex_select_el =
     (visibleElement ''select'' [(''name'', ''colour'')] ''select-one'')
       \<lparr>options := ex_colours, selectedIndex := Some 0\<rparr>"

definition ex_select :: page_state where
  "ex_select = snd (scanPage (pageOf [ElemNode ex_select_el []]))"

text \<open>A select in which two countries carry the same value, as the scanner leaves it.\<close>

definition ex_countries :: "option_el list" where
  "ex_countries =
     [\<lparr>opt_text = ''Choose...'', opt_value = []\<rparr>,
      \<lparr>opt_text = ''Canada'', opt_value = ''na''\<rparr>,
      \<lparr>opt_text = ''Mexico'', opt_value = ''na''\<rparr>]"

definition ex_country_select :: page_state where
  "ex_country_select =
     snd (scanPage (pageOf [ElemNode ((visibleElement ''select'' [(''name'', ''country'')] ''select-one'')
                                        \<lparr>options := ex_countries, selectedIndex := Some 0\<rparr>) []]))"

text \<open>
  Elements whose label the scanner looks for: a textarea with a placeholder and no
  label; an input labelled through \<open>for\<close>; an input with only a name; an input whose
  \<open>for\<close> label has no text.
\<close>

definition ex_notes_el :: element where
  "ex_notes_el = visibleElement ''textarea'' [(''placeholder'', ''Notes''), (''name'', ''notes'')] ''textarea''"

definition ex_notes_doc :: "node list" where
  "ex_notes_doc = [ElemNode (visibleElement ''form'' [] []) [ElemNode ex_notes_el []]]"

definition ex_email_el :: element where
  "ex_email_el = visibleElement ''input'' [(''id'', ''em''), (''name'', ''userEmail'')] ''text''"

definition ex_email_doc :: "node list" where
  "ex_email_doc =
     [ElemNode (visibleElement ''form'' [] [])
        [ElemNode (visibleElement ''label'' [(''for'', ''em'')] []) [TextNode '' Email ''],
         ElemNode ex_email_el []]]"

definition ex_name_el :: element where
  "ex_name_el = visibleElement ''input'' [(''name'', ''first_nameGiven'')] ''text''"

definition ex_name_doc :: "node list" where
  "ex_name_doc = [ElemNode (visibleElement ''form'' [] []) [ElemNode ex_name_el []]]"

definition ex_blank_el :: element where
  "ex_blank_el = visibleElement ''input'' [(''id'', ''q''), (''placeholder'', ''Your question'')] ''text''"

definition ex_blank_doc :: "node list" where
  "ex_blank_doc =
     [ElemNode (visibleElement ''form'' [] [])
        [ElemNode (visibleElement ''label'' [(''for'', ''q'')] []) [],
         ElemNode ex_blank_el []]]"

text \<open>The relay after one activation on tab 7, which the backend answered with session \<open>s-1\<close>.\<close>

definition ex_relay :: relay_state where
  "ex_relay = snd (handleACTIVATE (Some 7) None (Inr ''s-1'') initialRelay)"


section \<open>Facts about strings\<close>

text \<open>\<open>includes_str\<close> is the substring relation.\<close>

lemma take_length_eq_prefix: "(take (length t) s = t) = (\<exists>ys. s = t @ ys)"
proof
  assume "take (length t) s = t"
  then have "s = t @ drop (length t) s"
    by (metis append_take_drop_id)
  then show "\<exists>ys. s = t @ ys" ..
next
  assume "\<exists>ys. s = t @ ys"
  then show "take (length t) s = t" by auto
qed

lemma includes_str_iff: "includes_str s t = (\<exists>xs ys. s = xs @ t @ ys)"
proof (induction s)
  case Nil
  then show ?case by simp
next
  case (Cons c s)
  show ?case
  proof
    assume "includes_str (c # s) t"
    then consider "take (length t) (c # s) = t" | "includes_str s t"
      by auto
    then show "\<exists>xs ys. c # s = xs @ t @ ys"
    proof cases
      case 1
      then obtain ys where "c # s = t @ ys"
        unfolding take_length_eq_prefix by blast
      then have "c # s = [] @ t @ ys" by simp
      then show ?thesis by blast
    next
      case 2
      with Cons.IH obtain xs ys where "s = xs @ t @ ys" by blast
      then have "c # s = (c # xs) @ t @ ys" by simp
      then show ?thesis by blast
    qed
  next
    assume "\<exists>xs ys. c # s = xs @ t @ ys"
    then obtain xs ys where split: "c # s = xs @ t @ ys" by blast
    show "includes_str (c # s) t"
    proof (cases xs)
      case Nil
      with split have "\<exists>ys. c # s = t @ ys" by auto
      then have "take (length t) (c # s) = t"
        unfolding take_length_eq_prefix .
      then show ?thesis by simp
    next
      case (Cons x xs')
      with split have "s = xs' @ t @ ys" by simp
      with Cons.IH have "includes_str s t" by blast
      then show ?thesis by simp
    qed
  qed
qed

section \<open>Facts about the DOM operations\<close>

lemma nodeAt_updateAt:
  "nodeAt (updateAt f ns p) p =
     (case nodeAt ns p of
        Some (ElemNode e cs) \<Rightarrow> Some (ElemNode (f e) cs)
      | other \<Rightarrow> other)"
proof (induction p arbitrary: ns)
  case Nil
  then show ?case by simp
next
  case (Cons i p)
  show ?case
  proof (cases "i < length ns")
    case False
    then show ?thesis by simp
  next
    case True
    show ?thesis
    proof (cases "ns ! i")
      case (TextNode s)
      with True show ?thesis by simp
    next
      case (ElemNode e cs)
      with True Cons.IH [of cs] show ?thesis by (cases "p = []") simp_all
    qed
  qed
qed

lemma elemAt_updateAt: "elemAt (updateAt f ns p) p = map_option f (elemAt ns p)"
  by (simp add: elemAt_def nodeAt_updateAt split: option.splits node.splits)

lemma mapWithPath_ElemNode:
  "mapWithPath g (ElemNode e cs) p = ElemNode (g p e) (mapChildren g p cs)"
  by (simp add: mapChildren_def zip_map2 case_prod_unfold comp_def)

lemma mapChildren_nth:
  "i < length cs \<Longrightarrow> mapChildren g p cs ! i = mapWithPath g (cs ! i) (p @ [i])"
  by (simp add: mapChildren_def)

lemma length_mapChildren: "length (mapChildren g p cs) = length cs"
  by (simp add: mapChildren_def)

lemma nodeAt_mapChildren:
  "nodeAt (mapChildren g pre ns) q = map_option (\<lambda>n. mapWithPath g n (pre @ q)) (nodeAt ns q)"
proof (induction q arbitrary: ns pre)
  case Nil
  then show ?case by simp
next
  case (Cons i q)
  show ?case
  proof (cases "i < length ns")
    case False
    then show ?thesis by (simp add: length_mapChildren)
  next
    case True
    show ?thesis
    proof (cases "ns ! i")
      case (TextNode s)
      with True show ?thesis by (simp add: length_mapChildren mapChildren_nth)
    next
      case (ElemNode e cs)
      with True Cons.IH [of "pre @ [i]" cs] show ?thesis
        by (cases "q = []")
           (simp_all add: length_mapChildren mapChildren_nth mapWithPath_ElemNode
              del: mapWithPath.simps(2))
    qed
  qed
qed

lemma elemAt_mapChildren: "elemAt (mapChildren g [] ns) q = map_option (g q) (elemAt ns q)"
proof (cases "nodeAt ns q")
  case None
  then show ?thesis by (simp add: elemAt_def nodeAt_mapChildren)
next
  case (Some n)
  then show ?thesis
    by (cases n)
       (simp_all add: elemAt_def nodeAt_mapChildren mapWithPath_ElemNode del: mapWithPath.simps(2))
qed

lemma elemAt_uncheckGroup:
  "elemAt (uncheckGroup d p e) q =
     map_option (\<lambda>x. if inRadioGroup d p e q x then x\<lparr>checked := False\<rparr> else x) (elemAt d q)"
  by (simp add: uncheckGroup_def elemAt_mapChildren)

lemma elemAt_activation_checkbox:
  assumes "elemAt d p = Some e" "isInput e" "el_type e = ''checkbox''"
  shows "elemAt (activation p e d) p = Some (e\<lparr>checked := \<not> checked e\<rparr>)"
  using assms by (simp add: activation_def elemAt_updateAt)

lemma elemAt_activation_radio:
  assumes "elemAt d p = Some e" "isInput e" "el_type e = ''radio''"
  shows "map_option checked (elemAt (activation p e d) p) = Some True"
  using assms by (simp add: activation_def elemAt_updateAt elemAt_uncheckGroup)

section \<open>Checkboxes and radio buttons\<close>

lemma shouldCheck_truthy:
  "(toLowerCase v \<in> set [''true'', ''yes'', ''1'']) = truthyValue v"
  by (auto simp: truthyValue_def)

lemma fill_checkbox:
  assumes "refMap st r = Some p" "elemAt (doc st) p = Some e" "isInput e" "el_type e = ''checkbox''"
  shows "fillFieldByRef r v st =
           Some (success, if checked e \<noteq> truthyValue v then click p e st else st)"
proof -
  from assms(3) have "\<not> isSelect e" "\<not> isTextArea e"
    by (simp_all add: isInput_def isSelect_def isTextArea_def)
  with assms show ?thesis
    by (simp add: fillFieldByRef_def shouldCheck_truthy del: set_simps)
qed

lemma fill_radio:
  assumes "refMap st r = Some p" "elemAt (doc st) p = Some e" "isInput e" "el_type e = ''radio''"
  shows "fillFieldByRef r v st = Some (success, if \<not> checked e then click p e st else st)"
proof -
  from assms(3) have "\<not> isSelect e" "\<not> isTextArea e"
    by (simp_all add: isInput_def isSelect_def isTextArea_def)
  with assms show ?thesis
    by (simp add: fillFieldByRef_def)
qed

text \<open>A click on a disabled control, and a click that is cancelled, leave the document as it is.\<close>

lemma click_without_effect: "disabled e \<or> clickCancelled e \<Longrightarrow> doc (click p e st) = doc st"
  by (auto simp: click_def)

text \<open>
  The checkbox after a fill towards the target state \<open>t\<close>: still the same kind of
  control; in the target state if it is enabled and its click is not cancelled, in
  its old state otherwise.
\<close>

lemma checkbox_after_fill:
  assumes "elemAt (doc st) p = Some e" "isInput e" "el_type e = ''checkbox''"
  shows "elemAt (doc (if checked e \<noteq> t then click p e st else st)) p =
           Some (e\<lparr>checked := (if disabled e \<or> clickCancelled e then checked e else t)\<rparr>)"
proof (cases "checked e \<noteq> t")
  case False
  with assms(1) show ?thesis by simp
next
  case True
  show ?thesis
  proof (cases "disabled e \<or> clickCancelled e")
    case True
    with \<open>checked e \<noteq> t\<close> assms(1) show ?thesis
      by (simp add: click_without_effect)
  next
    case False
    have "\<not> checked e = t"
      using \<open>checked e \<noteq> t\<close> by auto
    with False \<open>checked e \<noteq> t\<close> elemAt_activation_checkbox [OF assms] show ?thesis
      by (simp add: click_def)
  qed
qed

text \<open>
  C4, as amended. For every checkbox field, \<open>fillFieldByRef\<close> returns \<open>{ok: true}\<close>
  and calls \<open>el.click()\<close> only when the current checked state differs from the target
  state (the value case-insensitively equals \<open>true\<close>, \<open>yes\<close> or \<open>1\<close>); when the states
  agree, nothing at all changes. If the checkbox is enabled and no listener cancels
  its click, the fill yields checked = target, and filling again with a value of the
  same target state changes nothing. If the checkbox is disabled or its click is
  cancelled, the document stays as it was. For every checkbox, filling again with a
  value of the same target state does not toggle it again: the document stays as the
  first fill left it.
\<close>

theorem checkbox_fill_idempotent:
  assumes "refMap st r = Some p" and "elemAt (doc st) p = Some e"
    and "isInput e" and "el_type e = ''checkbox''"
    and "truthyValue v' = truthyValue v"
  shows "\<exists>st' st''. fillFieldByRef r v st = Some (success, st')
           \<and> events st' = events st @ (if checked e \<noteq> truthyValue v then [Click p] else [])
           \<and> (checked e = truthyValue v \<longrightarrow> st' = st)
           \<and> (\<not> disabled e \<and> \<not> clickCancelled e \<longrightarrow>
                 map_option checked (elemAt (doc st') p) = Some (truthyValue v)
                 \<and> fillFieldByRef r v' st' = Some (success, st'))
           \<and> (disabled e \<or> clickCancelled e \<longrightarrow> doc st' = doc st)
           \<and> fillFieldByRef r v' st' = Some (success, st'')
           \<and> doc st'' = doc st'"
proof -
  define st' where "st' = (if checked e \<noteq> truthyValue v then click p e st else st)"
  define e' where "e' = e\<lparr>checked := (if disabled e \<or> clickCancelled e then checked e else truthyValue v)\<rparr>"
  define st'' where "st'' = (if checked e' \<noteq> truthyValue v' then click p e' st' else st')"
  have fill: "fillFieldByRef r v st = Some (success, st')"
    unfolding st'_def using assms(1-4) by (rule fill_checkbox)
  have ev: "events st' = events st @ (if checked e \<noteq> truthyValue v then [Click p] else [])"
    by (simp add: st'_def click_def)
  have same: "checked e = truthyValue v \<longrightarrow> st' = st"
    by (simp add: st'_def)
  have at: "elemAt (doc st') p = Some e'"
    unfolding st'_def e'_def using assms(2-4) by (rule checkbox_after_fill)
  have rm: "refMap st' r = Some p"
    using assms(1) by (simp add: st'_def click_def)
  have kind: "isInput e'" "el_type e' = ''checkbox''"
    using assms(3,4) by (simp_all add: e'_def isInput_def)
  have again: "fillFieldByRef r v' st' = Some (success, st'')"
    unfolding st''_def using rm at kind by (rule fill_checkbox)
  have enabled: "map_option checked (elemAt (doc st') p) = Some (truthyValue v) \<and> st'' = st'"
    if "\<not> disabled e \<and> \<not> clickCancelled e"
    using that at assms(5) by (simp add: e'_def st''_def)
  have kept: "doc st'' = doc st'"
  proof (cases "disabled e \<or> clickCancelled e")
    case True
    then have "disabled e' \<or> clickCancelled e'"
      by (simp add: e'_def)
    then show ?thesis
      by (simp add: st''_def click_without_effect)
  next
    case False
    with enabled show ?thesis by simp
  qed
  have inert: "disabled e \<or> clickCancelled e \<longrightarrow> doc st' = doc st"
    by (simp add: st'_def click_without_effect)
  from fill ev same enabled inert again kept show ?thesis
    by auto
qed

theorem checkbox_fill_idempotent_witness:
  "(\<exists>st'. fillFieldByRef ''f0'' ''YES'' ex_controls = Some (success, st')
          \<and> map_option checked (elemAt (doc st') [0, 0]) = Some True
          \<and> events st' = [Click [0, 0]]
          \<and> fillFieldByRef ''f0'' ''1'' st' = Some (success, st'))
   \<and> fillFieldByRef ''f1'' ''true'' ex_controls = Some (success, ex_controls)"
proof -
  have k1: "refMap ex_controls ''f1'' = Some [0, 1]"
    by code_simp
  have k2: "elemAt (doc ex_controls) [0, 1] =
              Some ((visibleElement ''input'' [(''name'', ''news'')] ''checkbox'')\<lparr>checked := True\<rparr>)"
    by code_simp
  have k3: "isInput ((visibleElement ''input'' [(''name'', ''news'')] ''checkbox'')\<lparr>checked := True\<rparr>)"
    by code_simp
  have k4: "el_type ((visibleElement ''input'' [(''name'', ''news'')] ''checkbox'')\<lparr>checked := True\<rparr>) = ''checkbox''"
    by code_simp
  have k5: "truthyValue ''true''"
    by code_simp
  have on: "checked ((visibleElement ''input'' [(''name'', ''news'')] ''checkbox'')\<lparr>checked := True\<rparr>)"
    by code_simp
  have kept: "fillFieldByRef ''f1'' ''true'' ex_controls = Some (success, ex_controls)"
    using checkbox_fill_idempotent [OF k1 k2 k3 k4 refl [of "truthyValue ''true''"]] k5 on
    by auto
  have h1: "refMap ex_controls ''f0'' = Some [0, 0]"
    by code_simp
  have h2: "elemAt (doc ex_controls) [0, 0] =
              Some (visibleElement ''input'' [(''name'', ''agree'')] ''checkbox'')"
    by code_simp
  have h3: "isInput (visibleElement ''input'' [(''name'', ''agree'')] ''checkbox'')"
    by code_simp
  have h4: "el_type (visibleElement ''input'' [(''name'', ''agree'')] ''checkbox'') = ''checkbox''"
    by code_simp
  have yes: "truthyValue ''YES''" and one: "truthyValue ''1''"
    by code_simp+
  have h5: "truthyValue ''1'' = truthyValue ''YES''"
    using yes one by simp
  have off: "\<not> checked (visibleElement ''input'' [(''name'', ''agree'')] ''checkbox'')"
    by code_simp
  have enabled: "\<not> disabled (visibleElement ''input'' [(''name'', ''agree'')] ''checkbox'')"
    "\<not> clickCancelled (visibleElement ''input'' [(''name'', ''agree'')] ''checkbox'')"
    by code_simp+
  have none: "events ex_controls = []"
    by code_simp
  from checkbox_fill_idempotent [OF h1 h2 h3 h4 h5] yes off enabled none
  have "\<exists>st'. fillFieldByRef ''f0'' ''YES'' ex_controls = Some (success, st')
          \<and> map_option checked (elemAt (doc st') [0, 0]) = Some True
          \<and> events st' = [Click [0, 0]]
          \<and> fillFieldByRef ''f0'' ''1'' st' = Some (success, st')"
    by auto
  with kept show ?thesis by simp
qed

text \<open>
  As stated, C4 fails: the scanner hands out \<open>f0\<close> for a visible checkbox that is
  disabled and unchecked; filling it with \<open>yes\<close> returns \<open>{ok: true}\<close> and the
  checkbox is still unchecked. The same happens to \<open>f2\<close>, whose click is cancelled.
\<close>

theorem disabled_checkbox_counterexample:
  "truthyValue ''yes''
   \<and> map_option tag (elemAt (doc ex_inert) [0, 0]) = Some ''input''
   \<and> map_option el_type (elemAt (doc ex_inert) [0, 0]) = Some ''checkbox''
   \<and> getElementByRef ex_inert ''f0'' = Some [0, 0]
   \<and> map_option fst (fillFieldByRef ''f0'' ''yes'' ex_inert) = Some \<lparr>ok = True, error = None\<rparr>
   \<and> map_option (\<lambda>res. map_option checked (elemAt (doc (snd res)) [0, 0]))
        (fillFieldByRef ''f0'' ''yes'' ex_inert) = Some (Some False)
   \<and> map_option el_type (elemAt (doc ex_inert) [0, 2]) = Some ''checkbox''
   \<and> getElementByRef ex_inert ''f2'' = Some [0, 2]
   \<and> map_option fst (fillFieldByRef ''f2'' ''yes'' ex_inert) = Some \<lparr>ok = True, error = None\<rparr>
   \<and> map_option (\<lambda>res. map_option checked (elemAt (doc (snd res)) [0, 2]))
        (fillFieldByRef ''f2'' ''yes'' ex_inert) = Some (Some False)"
  by code_simp

text \<open>
  C9, as amended. For every reference that resolves to a checkbox or radio input,
  \<open>fillFieldByRef\<close> returns \<open>{ok: true}\<close> for every value string. For a checkbox, a
  value whose lower-case form is none of \<open>true\<close>, \<open>yes\<close>, \<open>1\<close> is a request to
  uncheck: \<open>el.click()\<close> is called exactly if the box is checked, and the box is
  unchecked afterwards if it is enabled and no listener cancels its click. For a
  radio button the value is ignored (any two values give the same outcome) and
  \<open>el.click()\<close> is called exactly if the button is unchecked.
\<close>

theorem checkbox_radio_fill_always_ok:
  assumes "refMap st r = Some p" and "elemAt (doc st) p = Some e" and "isInput e"
    and "el_type e = ''checkbox'' \<or> el_type e = ''radio''"
  shows "\<exists>st'. fillFieldByRef r v st = Some (\<lparr>ok = True, error = None\<rparr>, st')
           \<and> (el_type e = ''checkbox'' \<and> \<not> truthyValue v \<longrightarrow>
                 events st' = events st @ (if checked e then [Click p] else [])
                 \<and> (\<not> disabled e \<and> \<not> clickCancelled e \<longrightarrow>
                       map_option checked (elemAt (doc st') p) = Some False))
           \<and> (el_type e = ''radio'' \<longrightarrow>
                 fillFieldByRef r v' st = Some (\<lparr>ok = True, error = None\<rparr>, st')
                 \<and> events st' = events st @ (if checked e then [] else [Click p]))"
proof (cases "el_type e = ''checkbox''")
  case True
  define st' where "st' = (if checked e \<noteq> truthyValue v then click p e st else st)"
  have "fillFieldByRef r v st = Some (success, st')"
    unfolding st'_def using assms(1-3) True by (rule fill_checkbox)
  moreover have "map_option checked (elemAt (doc st') p) = Some (truthyValue v)"
    if "\<not> disabled e \<and> \<not> clickCancelled e"
    unfolding st'_def using that checkbox_after_fill [OF assms(2,3) True, of "truthyValue v"]
    by simp
  moreover have "\<not> truthyValue v \<Longrightarrow> events st' = events st @ (if checked e then [Click p] else [])"
    by (simp add: st'_def click_def)
  ultimately show ?thesis using True by (auto simp: success_def)
next
  case False
  with assms(4) have radio: "el_type e = ''radio''" by simp
  define st' where "st' = (if \<not> checked e then click p e st else st)"
  have "fillFieldByRef r v st = Some (success, st')" "fillFieldByRef r v' st = Some (success, st')"
    unfolding st'_def using assms(1-3) radio by (rule fill_radio)+
  moreover have "events st' = events st @ (if checked e then [] else [Click p])"
    by (simp add: st'_def click_def)
  ultimately show ?thesis using False by (auto simp: success_def)
qed

theorem checkbox_radio_fill_always_ok_witness:
  "(\<exists>st'. fillFieldByRef ''f1'' ''banana'' ex_controls = Some (\<lparr>ok = True, error = None\<rparr>, st')
          \<and> map_option checked (elemAt (doc st') [0, 1]) = Some False
          \<and> events st' = [Click [0, 1]])
   \<and> (\<exists>st'. fillFieldByRef ''f2'' ''banana'' ex_controls = Some (\<lparr>ok = True, error = None\<rparr>, st')
          \<and> fillFieldByRef ''f2'' ''pro'' ex_controls = Some (\<lparr>ok = True, error = None\<rparr>, st')
          \<and> events st' = [Click [0, 2]])"
proof -
  have none: "events ex_controls = []"
    by code_simp
  have b1: "refMap ex_controls ''f1'' = Some [0, 1]"
    by code_simp
  have b2: "elemAt (doc ex_controls) [0, 1] =
              Some ((visibleElement ''input'' [(''name'', ''news'')] ''checkbox'')\<lparr>checked := True\<rparr>)"
    by code_simp
  have b3: "isInput ((visibleElement ''input'' [(''name'', ''news'')] ''checkbox'')\<lparr>checked := True\<rparr>)"
    by code_simp
  have b4: "el_type ((visibleElement ''input'' [(''name'', ''news'')] ''checkbox'')\<lparr>checked := True\<rparr>) = ''checkbox''"
    by code_simp
  have b5: "\<not> truthyValue ''banana''"
    by code_simp
  have b6: "\<not> disabled ((visibleElement ''input'' [(''name'', ''news'')] ''checkbox'')\<lparr>checked := True\<rparr>)"
    "\<not> clickCancelled ((visibleElement ''input'' [(''name'', ''news'')] ''checkbox'')\<lparr>checked := True\<rparr>)"
    by code_simp+
  have r1: "refMap ex_controls ''f2'' = Some [0, 2]"
    by code_simp
  have r2: "elemAt (doc ex_controls) [0, 2] = Some (visibleElement ''input'' [(''name'', ''plan'')] ''radio'')"
    by code_simp
  have r3: "isInput (visibleElement ''input'' [(''name'', ''plan'')] ''radio'')"
    by code_simp
  have r4: "el_type (visibleElement ''input'' [(''name'', ''plan'')] ''radio'') = ''radio''"
    by code_simp
  have r5: "\<not> checked (visibleElement ''input'' [(''name'', ''plan'')] ''radio'')"
    by code_simp
  have box: "\<exists>st'. fillFieldByRef ''f1'' ''banana'' ex_controls = Some (\<lparr>ok = True, error = None\<rparr>, st')
               \<and> map_option checked (elemAt (doc st') [0, 1]) = Some False
               \<and> events st' = [Click [0, 1]]"
    using checkbox_radio_fill_always_ok [OF b1 b2 b3, of "''banana''" "''banana''"] b4 b5 b6 none
    by auto
  have radio: "\<exists>st'. fillFieldByRef ''f2'' ''banana'' ex_controls = Some (\<lparr>ok = True, error = None\<rparr>, st')
               \<and> fillFieldByRef ''f2'' ''pro'' ex_controls = Some (\<lparr>ok = True, error = None\<rparr>, st')
               \<and> events st' = [Click [0, 2]]"
    using checkbox_radio_fill_always_ok [OF r1 r2 r3, of "''banana''" "''pro''"] r4 r5 none
    by simp
  from box radio show ?thesis by blast
qed

text \<open>
  As stated, C9 fails: \<open>f1\<close> resolves to a checkbox that is disabled and checked;
  filling it with \<open>banana\<close> returns \<open>{ok: true}\<close> and the box is still checked.
\<close>

theorem disabled_checked_box_counterexample:
  "\<not> truthyValue ''banana''
   \<and> map_option tag (elemAt (doc ex_inert) [0, 1]) = Some ''input''
   \<and> map_option el_type (elemAt (doc ex_inert) [0, 1]) = Some ''checkbox''
   \<and> map_option checked (elemAt (doc ex_inert) [0, 1]) = Some True
   \<and> getElementByRef ex_inert ''f1'' = Some [0, 1]
   \<and> map_option fst (fillFieldByRef ''f1'' ''banana'' ex_inert) = Some \<lparr>ok = True, error = None\<rparr>
   \<and> map_option (\<lambda>res. map_option checked (elemAt (doc (snd res)) [0, 1]))
        (fillFieldByRef ''f1'' ''banana'' ex_inert) = Some (Some True)"
  by code_simp

section \<open>References absent from the table\<close>

text \<open>
  C5. For every reference string absent from the current reference table,
  \<open>fillFieldByRef\<close> and \<open>clickElementByRef\<close> both return (they do not throw: the
  result is a value) the structured failure whose \<open>ok\<close> is false and whose error is
  \<open>Element <ref> not found\<close>, with the reference interpolated verbatim.
\<close>

theorem absent_ref_structured_failure:
  assumes "refMap st r = None"
  shows "map_option fst (fillFieldByRef r v st) =
           Some \<lparr>ok = False, error = Some (''Element '' @ r @ '' not found'')\<rparr>
       \<and> map_option fst (clickElementByRef r st) =
           Some \<lparr>ok = False, error = Some (''Element '' @ r @ '' not found'')\<rparr>"
  using assms by (simp add: fillFieldByRef_def clickElementByRef_def failure_def)

theorem absent_ref_structured_failure_witness:
  "map_option fst (fillFieldByRef ''f7'' ''Ada'' ex_controls) =
     Some \<lparr>ok = False, error = Some ''Element f7 not found''\<rparr>
   \<and> map_option fst (clickElementByRef ''f7'' ex_controls) =
     Some \<lparr>ok = False, error = Some ''Element f7 not found''\<rparr>"
proof -
  have absent: "refMap ex_controls ''f7'' = None"
    by code_simp
  from absent_ref_structured_failure [OF absent, of "''Ada''"] show ?thesis
    by simp
qed

text \<open>
  C10. For every reference string absent from the current table, \<open>fillFieldByRef\<close>
  and \<open>clickElementByRef\<close> leave the whole state as it was: the reference table,
  the document (no value or checkedness changes) and the record of clicks and
  dispatched events.
\<close>

theorem absent_ref_state_unchanged:
  assumes "refMap st r = None"
  shows "map_option snd (fillFieldByRef r v st) = Some st
       \<and> map_option snd (clickElementByRef r st) = Some st"
  using assms by (simp add: fillFieldByRef_def clickElementByRef_def)

theorem absent_ref_state_unchanged_witness:
  "map_option snd (fillFieldByRef ''b0'' ''Ada'' ex_controls) = Some ex_controls
   \<and> map_option snd (clickElementByRef ''b0'' ex_controls) = Some ex_controls"
proof -
  have absent: "refMap ex_controls ''b0'' = None"
    by code_simp
  from absent_ref_state_unchanged [OF absent, of "''Ada''"] show ?thesis .
qed

section \<open>Filling a select\<close>

lemma fillSelect_loop_Cons:
  "fillSelect_loop vl (opt # rest) b =
     (if matchesExactly vl opt then Some opt
      else if b = None \<and> matchesPartially vl opt then fillSelect_loop vl rest (Some opt)
      else fillSelect_loop vl rest b)"
  by (simp add: matchesExactly_def matchesPartially_def Let_def)

lemma fillSelect_loop_Some:
  "fillSelect_loop vl opts (Some b) =
     (case find (matchesExactly vl) opts of Some opt \<Rightarrow> Some opt | None \<Rightarrow> Some b)"
  by (induction opts) (simp_all add: fillSelect_loop_Cons del: fillSelect_loop.simps(2))

lemma fillSelect_loop_None:
  "fillSelect_loop vl opts None =
     (case find (matchesExactly vl) opts of
        Some opt \<Rightarrow> Some opt
      | None \<Rightarrow> find (matchesPartially vl) opts)"
  by (induction opts)
     (auto simp: fillSelect_loop_Cons fillSelect_loop_Some simp del: fillSelect_loop.simps(2)
        split: option.splits)

lemma firstIndexWithValue_Some:
  "opt \<in> set opts \<Longrightarrow>
     \<exists>i. firstIndexWithValue (opt_value opt) opts = Some i \<and> i < length opts
          \<and> opt_value (opts ! i) = opt_value opt"
  by (induction opts) auto

lemma get_value_set_value:
  assumes "isSelect e" "opt \<in> set (options e)"
  shows "get_value (set_value san (opt_value opt) e) = opt_value opt"
proof -
  from firstIndexWithValue_Some [OF assms(2)] obtain i where
    "firstIndexWithValue (opt_value opt) (options e) = Some i" "i < length (options e)"
    "opt_value (options e ! i) = opt_value opt"
    by blast
  with assms(1) show ?thesis
    by (simp add: get_value_def set_value_def selectedOption_def isSelect_def)
qed

lemma find_Some_in_set: "find P xs = Some x \<Longrightarrow> x \<in> set xs"
  by (induction xs) (auto split: if_splits)

text \<open>An option that no earlier option shares its value with is the first with that value.\<close>

lemma firstIndexWithValue_first:
  "i < length opts \<Longrightarrow> \<forall>j<i. opt_value (opts ! j) \<noteq> opt_value (opts ! i) \<Longrightarrow>
     firstIndexWithValue (opt_value (opts ! i)) opts = Some i"
proof (induction opts arbitrary: i)
  case Nil
  then show ?case by simp
next
  case (Cons a opts)
  show ?case
  proof (cases i)
    case 0
    then show ?thesis by simp
  next
    case (Suc k)
    with Cons.prems(1) have k: "k < length opts" by simp
    from Cons.prems(2) Suc have head: "opt_value a \<noteq> opt_value (opts ! k)"
      by fastforce
    have "\<forall>j<k. opt_value (opts ! j) \<noteq> opt_value (opts ! k)"
    proof (intro allI impI)
      fix j assume "j < k"
      then have "Suc j < i" using Suc by simp
      with Cons.prems(2) have "opt_value ((a # opts) ! Suc j) \<noteq> opt_value ((a # opts) ! i)"
        by blast
      with Suc show "opt_value (opts ! j) \<noteq> opt_value (opts ! k)" by simp
    qed
    with Cons.IH [OF k] have "firstIndexWithValue (opt_value (opts ! k)) opts = Some k"
      by simp
    with head Suc show ?thesis by simp
  qed
qed

text \<open>
  C3, as amended. For every select element bound in the current table and every
  value string, \<open>fillFieldByRef\<close> compares the value, lower-cased and trimmed, with
  each option's display text (trimmed, lower-cased) and underlying value
  (lower-cased). The first option in document order that equals it in either wins,
  whatever came before it; if there is none, the first option in document order
  whose text contains the value or is contained in it. The value of the option that
  wins is assigned to the select and a \<open>change\<close> event is dispatched: the value of
  the select is then the winner's value, and the winner is the selected option
  whenever no option before it carries the same value. If no option matches in
  either way, the result is the failure whose message lists the display texts of
  all options with a non-empty value.
\<close>

theorem select_fill_matching:
  assumes "refMap st r = Some p" and "elemAt (doc st) p = Some e" and "isSelect e"
  shows "fillFieldByRef r v st =
           Some (case find (matchesExactly (trim (toLowerCase v))) (options e) of
                   Some opt \<Rightarrow> (success, chooseOption p opt st)
                 | None \<Rightarrow>
                     (case find (matchesPartially (trim (toLowerCase v))) (options e) of
                        Some opt \<Rightarrow> (success, chooseOption p opt st)
                      | None \<Rightarrow>
                          (failure (''No matching option for '' @ [CHR 0x22] @ v @ [CHR 0x22]
                                    @ ''. Available: ''
                                    @ join_str '', ''
                                        (map (\<lambda>opt. trim (opt_text opt))
                                           (filter (\<lambda>opt. opt_value opt \<noteq> []) (options e)))),
                           st)))
       \<and> (\<forall>opt \<in> set (options e).
             map_option get_value (elemAt (doc (chooseOption p opt st)) p) = Some (opt_value opt)
             \<and> events (chooseOption p opt st) = events st @ [Dispatch p ''change''])
       \<and> (\<forall>i < length (options e).
             (\<forall>j<i. opt_value (options e ! j) \<noteq> opt_value (options e ! i)) \<longrightarrow>
             map_option selectedIndex (elemAt (doc (chooseOption p (options e ! i) st)) p)
               = Some (Some i))"
proof -
  have fill: "fillFieldByRef r v st = Some (fillSelect p e v st)"
    using assms by (simp add: fillFieldByRef_def)
  have outcome: "fillSelect p e v st =
           (case find (matchesExactly (trim (toLowerCase v))) (options e) of
                   Some opt \<Rightarrow> (success, chooseOption p opt st)
                 | None \<Rightarrow>
                     (case find (matchesPartially (trim (toLowerCase v))) (options e) of
                        Some opt \<Rightarrow> (success, chooseOption p opt st)
                      | None \<Rightarrow>
                          (failure (''No matching option for '' @ [CHR 0x22] @ v @ [CHR 0x22]
                                    @ ''. Available: ''
                                    @ join_str '', ''
                                        (map (\<lambda>opt. trim (opt_text opt))
                                           (filter (\<lambda>opt. opt_value opt \<noteq> []) (options e)))),
                           st)))"
    by (simp add: fillSelect_def fillSelect_loop_None chooseOption_def availableOptions_def Let_def
        split: option.splits)
  have after: "elemAt (doc (chooseOption p opt st)) p
                 = Some (e\<lparr>selectedIndex := firstIndexWithValue (opt_value opt) (options e)\<rparr>)" for opt
    using assms(2,3)
    by (simp add: chooseOption_def dispatchEvent_def assignValue_def elemAt_updateAt set_value_def)
  have effect: "map_option get_value (elemAt (doc (chooseOption p opt st)) p) = Some (opt_value opt)
             \<and> events (chooseOption p opt st) = events st @ [Dispatch p ''change'']"
    if "opt \<in> set (options e)" for opt
    using assms(3) get_value_set_value [OF assms(3) that, of "sanitization st"]
    by (simp add: after) (simp add: chooseOption_def dispatchEvent_def assignValue_def set_value_def)
  have winner: "map_option selectedIndex (elemAt (doc (chooseOption p (options e ! i) st)) p)
                  = Some (Some i)"
    if "i < length (options e)" "\<forall>j<i. opt_value (options e ! j) \<noteq> opt_value (options e ! i)" for i
    using firstIndexWithValue_first [OF that] by (simp add: after)
  from fill outcome effect winner show ?thesis by simp
qed

theorem select_fill_matching_witness:
  "fillFieldByRef ''f0'' ''RED'' ex_select =
     Some (success, chooseOption [0] \<lparr>opt_text = ''Red'', opt_value = ''r''\<rparr> ex_select)
   \<and> map_option get_value
        (elemAt (doc (chooseOption [0] \<lparr>opt_text = ''Red'', opt_value = ''r''\<rparr> ex_select)) [0])
      = Some ''r''
   \<and> map_option selectedIndex
        (elemAt (doc (chooseOption [0] \<lparr>opt_text = ''Red'', opt_value = ''r''\<rparr> ex_select)) [0])
      = Some (Some 2)
   \<and> fillFieldByRef ''f0'' '' gre'' ex_select =
     Some (success, chooseOption [0] \<lparr>opt_text = ''Green'', opt_value = ''g''\<rparr> ex_select)
   \<and> map_option (\<lambda>res. error (fst res)) (fillFieldByRef ''f0'' ''Blue'' ex_select) =
     Some (Some (''No matching option for '' @ [CHR 0x22] @ ''Blue'' @ [CHR 0x22]
                 @ ''. Available: Dark Red, Red, Green''))"
proof -
  have h1: "refMap ex_select ''f0'' = Some [0]"
    by code_simp
  have h2: "elemAt (doc ex_select) [0] = Some ex_select_el"
    by code_simp
  have h3: "isSelect ex_select_el"
    by code_simp
  have opts: "options ex_select_el = ex_colours"
    by code_simp
  note matching = select_fill_matching [OF h1 h2 h3, unfolded opts]
  have red: "find (matchesExactly (trim (toLowerCase ''RED''))) ex_colours
               = Some \<lparr>opt_text = ''Red'', opt_value = ''r''\<rparr>"
    by code_simp
  have gre: "find (matchesExactly (trim (toLowerCase '' gre''))) ex_colours = None"
       "find (matchesPartially (trim (toLowerCase '' gre''))) ex_colours
          = Some \<lparr>opt_text = ''Green'', opt_value = ''g''\<rparr>"
    by code_simp+
  have blue: "find (matchesExactly (trim (toLowerCase ''Blue''))) ex_colours = None"
       "find (matchesPartially (trim (toLowerCase ''Blue''))) ex_colours = None"
    by code_simp+
  have avail: "join_str '', '' (map (\<lambda>opt. trim (opt_text opt))
                  (filter (\<lambda>opt. opt_value opt \<noteq> []) ex_colours)) = ''Dark Red, Red, Green''"
    by code_simp
  have member: "\<lparr>opt_text = ''Red'', opt_value = ''r''\<rparr> \<in> set ex_colours"
    by code_simp
  have third: "(2::nat) < length ex_colours" "ex_colours ! 2 = \<lparr>opt_text = ''Red'', opt_value = ''r''\<rparr>"
    "\<forall>j<2. opt_value (ex_colours ! j) \<noteq> opt_value (ex_colours ! 2)"
    by (simp_all add: ex_colours_def less_Suc_eq numeral_2_eq_2)
  have a: "fillFieldByRef ''f0'' ''RED'' ex_select =
             Some (success, chooseOption [0] \<lparr>opt_text = ''Red'', opt_value = ''r''\<rparr> ex_select)"
    using matching [of "''RED''"] red by simp
  have b: "map_option get_value
             (elemAt (doc (chooseOption [0] \<lparr>opt_text = ''Red'', opt_value = ''r''\<rparr> ex_select)) [0])
           = Some ''r''"
    using matching [of "''RED''", THEN conjunct2, THEN conjunct1, THEN bspec, OF member] by simp
  have b': "map_option selectedIndex
             (elemAt (doc (chooseOption [0] \<lparr>opt_text = ''Red'', opt_value = ''r''\<rparr> ex_select)) [0])
           = Some (Some 2)"
    using matching [of "''RED''", THEN conjunct2, THEN conjunct2, THEN spec, of 2] third by simp
  have c: "fillFieldByRef ''f0'' '' gre'' ex_select =
             Some (success, chooseOption [0] \<lparr>opt_text = ''Green'', opt_value = ''g''\<rparr> ex_select)"
    using matching [of "'' gre''"] gre by simp
  have d: "map_option (\<lambda>res. error (fst res)) (fillFieldByRef ''f0'' ''Blue'' ex_select) =
             Some (Some (''No matching option for '' @ [CHR 0x22] @ ''Blue'' @ [CHR 0x22]
                         @ ''. Available: Dark Red, Red, Green''))"
    using matching [of "''Blue''"] blue avail by (simp add: failure_def)
  from a b b' c d show ?thesis by simp
qed

text \<open>
  As stated, C3 fails: in a select whose options \<open>Canada\<close> and \<open>Mexico\<close> carry the
  same value, the value \<open>Mexico\<close> matches the option \<open>Mexico\<close> exactly and no option
  before it, the fill returns \<open>{ok: true}\<close>, and the selected option is \<open>Canada\<close>.
\<close>

theorem duplicate_value_counterexample:
  "find (matchesExactly (trim (toLowerCase ''Mexico''))) ex_countries
     = Some \<lparr>opt_text = ''Mexico'', opt_value = ''na''\<rparr>
   \<and> map_option options (elemAt (doc ex_country_select) [0]) = Some ex_countries
   \<and> getElementByRef ex_country_select ''f0'' = Some [0]
   \<and> map_option fst (fillFieldByRef ''f0'' ''Mexico'' ex_country_select)
       = Some \<lparr>ok = True, error = None\<rparr>
   \<and> map_option (\<lambda>res. map_option selectedOption (elemAt (doc (snd res)) [0]))
        (fillFieldByRef ''f0'' ''Mexico'' ex_country_select)
       = Some (Some (Some \<lparr>opt_text = ''Canada'', opt_value = ''na''\<rparr>))"
  by code_simp

text \<open>
  The option selected after the assignment is always the first that carries the
  assigned value; it is the option that won where the option values of the select are
  pairwise different.
\<close>

lemma chosen_option_selected:
  assumes "opt \<in> set (options e)" and "distinct (map opt_value (options e))"
  shows "selectedOption (e\<lparr>selectedIndex := firstIndexWithValue (opt_value opt) (options e)\<rparr>) = Some opt"
proof -
  from firstIndexWithValue_Some [OF assms(1)] obtain i where
    i: "firstIndexWithValue (opt_value opt) (options e) = Some i" "i < length (options e)"
       "opt_value (options e ! i) = opt_value opt"
    by blast
  from assms(2) have "inj_on opt_value (set (options e))"
    by (simp add: distinct_map)
  with i(2,3) assms(1) have "options e ! i = opt"
    by (auto dest: inj_onD)
  with i show ?thesis
    by (simp add: selectedOption_def)
qed

section \<open>The reference table across scans\<close>

lemma sf_ref_scanField: "sf_ref (scanField d r p e) = r"
  by (simp add: scanField_def)

lemma scanFields_dom:
  "dom rm = set (map sf_ref fs) \<union> B \<Longrightarrow>
     dom (fst (snd (scanFields d xs i rm fs))) = set (map sf_ref (snd (snd (scanFields d xs i rm fs)))) \<union> B"
proof (induction d xs i rm fs rule: scanFields.induct)
  case (1 d fieldIdx rm fs)
  then show ?case by simp
next
  case (2 d p e cs rest fieldIdx rm fs)
  show ?case
  proof (cases "\<not> isVisible e \<or> isHiddenInput e")
    case True
    with 2 show ?thesis by simp
  next
    case False
    define r where "r = ''f'' @ string_of_nat fieldIdx"
    have step: "scanFields d ((p, e, cs) # rest) fieldIdx rm fs =
                  scanFields d rest (Suc fieldIdx) (rm(r \<mapsto> p)) (fs @ [scanField d r p e])"
      using False by (simp add: r_def Let_def)
    have "dom (rm(r \<mapsto> p)) = set (map sf_ref (fs @ [scanField d r p e])) \<union> B"
      using "2.prems" by (simp add: sf_ref_scanField)
    then have "dom (fst (snd (scanFields d rest (Suc fieldIdx) (rm(r \<mapsto> p)) (fs @ [scanField d r p e]))))
           = set (map sf_ref (snd (snd (scanFields d rest (Suc fieldIdx) (rm(r \<mapsto> p))
                                            (fs @ [scanField d r p e]))))) \<union> B"
      by (rule "2.IH"(2) [OF False r_def])
    then show ?thesis
      unfolding step .
  qed
qed

lemma scanButtons_dom:
  "dom rm = set (map sb_ref bs) \<union> B \<Longrightarrow>
     dom (fst (snd (scanButtons xs i rm bs))) = set (map sb_ref (snd (snd (scanButtons xs i rm bs)))) \<union> B"
proof (induction xs i rm bs rule: scanButtons.induct)
  case (1 buttonIdx rm bs)
  then show ?case by simp
next
  case (2 p e cs rest buttonIdx rm bs)
  define label where "label = getButtonText e cs"
  show ?case
  proof (cases "\<not> isVisible e \<or> label = []")
    case True
    with 2 show ?thesis by (auto simp: label_def Let_def)
  next
    case False
    then have vis: "\<not> \<not> isVisible e" and filled: "label \<noteq> []" by simp_all
    define r where "r = ''b'' @ string_of_nat buttonIdx"
    define b where "b = \<lparr>sb_ref = r, sb_text = label,
                           sb_type = (if isButton e
                                      then (if el_type e \<noteq> [] then el_type e else ''button'')
                                      else ''button'')\<rparr>"
    have step: "scanButtons ((p, e, cs) # rest) buttonIdx rm bs =
                  scanButtons rest (Suc buttonIdx) (rm(r \<mapsto> p)) (bs @ [b])"
      using False by (simp add: r_def b_def label_def Let_def)
    have "dom (rm(r \<mapsto> p)) = set (map sb_ref (bs @ [b])) \<union> B"
      using "2.prems" by (simp add: b_def)
    then have "dom (fst (snd (scanButtons rest (Suc buttonIdx) (rm(r \<mapsto> p)) (bs @ [b]))))
           = set (map sb_ref (snd (snd (scanButtons rest (Suc buttonIdx) (rm(r \<mapsto> p)) (bs @ [b]))))) \<union> B"
      unfolding b_def by (rule "2.IH"(3) [OF vis label_def filled r_def])
    then show ?thesis
      unfolding step .
  qed
qed

lemma scanLinks_dom:
  "dom rm = set (map sb_ref bs) \<union> B \<Longrightarrow>
     dom (fst (snd (scanLinks xs i rm bs))) = set (map sb_ref (snd (snd (scanLinks xs i rm bs)))) \<union> B"
proof (induction xs i rm bs rule: scanLinks.induct)
  case (1 buttonIdx rm bs)
  then show ?case by simp
next
  case (2 p e cs rest buttonIdx rm bs)
  define label where "label = trim (textContent (ElemNode e cs))"
  show ?case
  proof (cases "\<not> isVisible e \<or> label = []")
    case True
    with 2 show ?thesis by (auto simp: label_def Let_def)
  next
    case False
    then have vis: "\<not> \<not> isVisible e" and filled: "label \<noteq> []" by simp_all
    define r where "r = ''b'' @ string_of_nat buttonIdx"
    define b where "b = \<lparr>sb_ref = r, sb_text = label, sb_type = ''link''\<rparr>"
    have step: "scanLinks ((p, e, cs) # rest) buttonIdx rm bs =
                  scanLinks rest (Suc buttonIdx) (rm(r \<mapsto> p)) (bs @ [b])"
      using False by (simp add: r_def b_def label_def Let_def)
    have "dom (rm(r \<mapsto> p)) = set (map sb_ref (bs @ [b])) \<union> B"
      using "2.prems" by (simp add: b_def)
    then have "dom (fst (snd (scanLinks rest (Suc buttonIdx) (rm(r \<mapsto> p)) (bs @ [b]))))
           = set (map sb_ref (snd (snd (scanLinks rest (Suc buttonIdx) (rm(r \<mapsto> p)) (bs @ [b]))))) \<union> B"
      unfolding b_def by (rule "2.IH"(3) [OF vis label_def filled r_def])
    then show ?thesis
      unfolding step .
  qed
qed

lemma scanPage_dom: "dom (refMap (snd (scanPage st))) = snapshotRefs (fst (scanPage st))"
proof -
  define els where "els = walkAll (doc st)"
  define F where "F = scanFields (doc st) (filter (\<lambda>(p, e, cs). isFormElement e) els) 0 Map.empty []"
  define Bt where "Bt = scanButtons (filter (\<lambda>(p, e, cs). isButtonElement e) els) 0 (fst (snd F)) []"
  define L where "L = scanLinks (filter (\<lambda>(p, e, cs). isLinkButton e) els) (fst Bt) (fst (snd Bt)) (snd (snd Bt))"
  have f: "dom (fst (snd F)) = set (map sf_ref (snd (snd F))) \<union> {}"
    unfolding F_def by (rule scanFields_dom) simp
  have b: "dom (fst (snd Bt)) = set (map sb_ref (snd (snd Bt))) \<union> set (map sf_ref (snd (snd F)))"
    unfolding Bt_def by (rule scanButtons_dom) (simp add: f)
  have l: "dom (fst (snd L)) = set (map sb_ref (snd (snd L))) \<union> set (map sf_ref (snd (snd F)))"
    unfolding L_def by (rule scanLinks_dom) (rule b)
  have page: "scanPage st =
     (\<lparr>snap_url = url st, snap_title = title st, snap_fields = snd (snd F), snap_buttons = snd (snd L)\<rparr>,
      st\<lparr>refMap := fst (snd L)\<rparr>)"
    by (simp add: scanPage_def Let_def F_def Bt_def L_def els_def split: prod.splits)
  show ?thesis
    by (simp add: page l snapshotRefs_def Un_commute)
qed

lemma scanPage_forgets_table: "scanPage (st\<lparr>refMap := m\<rparr>) = scanPage st"
  by (simp add: scanPage_def Let_def split: prod.splits)

text \<open>
  C1, as amended. After a scan the table binds exactly the reference strings of that
  scan's snapshot, and the outcome of the scan does not depend on the table it found.
  So after a second scan (of a document that may have changed) a reference produced by
  the first scan resolves to nothing unless the second scan produced the same string
  again (the numbering restarts at \<open>f0\<close> and \<open>b0\<close>), and then it names the element the
  second scan bound to it.
\<close>

theorem rescan_rebuilds_table:
  "(getElementByRef (snd (scanPage (snd (scanPage st)\<lparr>doc := d'\<rparr>))) r = None)
     = (r \<notin> snapshotRefs (fst (scanPage (snd (scanPage st)\<lparr>doc := d'\<rparr>))))
   \<and> scanPage (snd (scanPage st)\<lparr>doc := d'\<rparr>) = scanPage (st\<lparr>doc := d', refMap := Map.empty\<rparr>)"
proof -
  have "(getElementByRef (snd (scanPage s)) r = None) = (r \<notin> snapshotRefs (fst (scanPage s)))" for s
    by (simp add: getElementByRef_def domIff flip: scanPage_dom)
  moreover have "scanPage (snd (scanPage st)\<lparr>doc := d'\<rparr>) = scanPage (st\<lparr>doc := d', refMap := Map.empty\<rparr>)"
    by (simp add: scanPage_def Let_def split: prod.splits)
  ultimately show ?thesis by simp
qed

text \<open>
  As stated, C1 fails: scanning the form with three controls twice, \<open>f0\<close> is a
  reference of the first scan and resolves after the second.
\<close>

theorem stale_reference_counterexample:
  "''f0'' \<in> snapshotRefs (fst (scanPage (pageOf ex_controls_doc)))
   \<and> getElementByRef (snd (scanPage (snd (scanPage (pageOf ex_controls_doc))))) ''f0'' = Some [0, 0]"
  by code_simp

theorem rescan_rebuilds_table_witness:
  "''f2'' \<in> snapshotRefs (fst (scanPage (pageOf ex_controls_doc)))
   \<and> getElementByRef
        (snd (scanPage (snd (scanPage (pageOf ex_controls_doc))\<lparr>doc := [ElemNode ex_select_el []]\<rparr>)))
        ''f2'' = None
   \<and> getElementByRef
        (snd (scanPage (snd (scanPage (pageOf ex_controls_doc))\<lparr>doc := [ElemNode ex_select_el []]\<rparr>)))
        ''f0'' = Some [0]"
proof -
  have first: "''f2'' \<in> snapshotRefs (fst (scanPage (pageOf ex_controls_doc)))"
    by code_simp
  have gone: "''f2'' \<notin> snapshotRefs
                 (fst (scanPage (snd (scanPage (pageOf ex_controls_doc))\<lparr>doc := [ElemNode ex_select_el []]\<rparr>)))"
    by code_simp
  have again: "getElementByRef
        (snd (scanPage (snd (scanPage (pageOf ex_controls_doc))\<lparr>doc := [ElemNode ex_select_el []]\<rparr>)))
        ''f0'' = Some [0]"
    by code_simp
  from rescan_rebuilds_table [where st = "pageOf ex_controls_doc" and d' = "[ElemNode ex_select_el []]"
         and r = "''f2''", THEN conjunct1] gone
  have "getElementByRef
        (snd (scanPage (snd (scanPage (pageOf ex_controls_doc))\<lparr>doc := [ElemNode ex_select_el []]\<rparr>)))
        ''f2'' = None"
    by blast
  with first again show ?thesis by simp
qed

section \<open>Label resolution\<close>

lemma decamel_eq_Nil: "(decamel s = []) = (s = [])"
  by (induction s rule: decamel.induct) auto

lemma nameWords_eq_Nil: "(nameWords n = []) = (n = [])"
  by (simp add: nameWords_def decamel_eq_Nil)

lemma preceding_step:
  "(let prevText =
          (case previousElementSibling d p of
             Some (ElemNode pe pcs) \<Rightarrow>
               (if tagName pe \<noteq> ''INPUT'' \<and> tagName pe \<noteq> ''SELECT''
                then trim (textContent (ElemNode pe pcs)) else [])
           | _ \<Rightarrow> [])
    in if prevText \<noteq> [] \<and> length prevText < 100 then prevText else R)
   = (if precedingSiblingText d p \<noteq> [] then precedingSiblingText d p else R)"
  by (simp add: precedingSiblingText_def Let_def split: option.splits node.splits)

lemma findLabel_cascade:
  "findLabel d p e =
     (case labelForText d e of
        Some t \<Rightarrow> t
      | None \<Rightarrow>
          (if ancestorLabelText d p \<noteq> [] then ancestorLabelText d p
           else (case ariaLabelText e of
                   Some t \<Rightarrow> t
                 | None \<Rightarrow>
                     (case labelledByText d e of
                        Some t \<Rightarrow> t
                      | None \<Rightarrow>
                          (if precedingSiblingText d p \<noteq> [] then precedingSiblingText d p
                           else if isInput e \<and> el_placeholder e \<noteq> [] then el_placeholder e
                           else if isInput e \<and> el_name e \<noteq> [] then nameWords (el_name e)
                           else [])))))"
  unfolding findLabel_def preceding_step
  by (simp add: labelForText_def ancestorLabelText_def ariaLabelText_def labelledByText_def Let_def
      split: option.splits prod.splits)

lemma designed_cascade:
  "designed_findLabel d p e =
     (if textOrEmpty (labelForText d e) \<noteq> [] then textOrEmpty (labelForText d e)
      else if ancestorLabelText d p \<noteq> [] then ancestorLabelText d p
      else if textOrEmpty (ariaLabelText e) \<noteq> [] then textOrEmpty (ariaLabelText e)
      else if textOrEmpty (labelledByText d e) \<noteq> [] then textOrEmpty (labelledByText d e)
      else if precedingSiblingText d p \<noteq> [] then precedingSiblingText d p
      else if isInput e \<and> el_placeholder e \<noteq> [] then el_placeholder e
      else if isInput e \<and> el_name e \<noteq> [] then nameWords (el_name e)
      else [])"
  by (simp add: designed_findLabel_def firstNonEmpty_def nameWords_eq_Nil)

text \<open>
  C8, as amended. For every scanned element for which any label found through
  \<open>for\<close>, any non-empty \<open>aria-label\<close> and any element found through
  \<open>aria-labelledby\<close> has non-blank text, the label is the first non-empty text among:
  (1) the label whose \<open>for\<close> is the element's id, (2) the nearest label ancestor read
  without its input, select and textarea descendants, (3) the \<open>aria-label\<close>
  attribute, (4) the element named by \<open>aria-labelledby\<close>, (5) the preceding element
  sibling if it is no input or select and its text is shorter than 100 characters,
  (6) the placeholder if the element is an \<open>input\<close>, (7) the name as words if the
  element is an \<open>input\<close>; and the empty string if there is none. (Texts are trimmed.)
\<close>

theorem findLabel_designed:
  assumes "foundTextsNonEmpty d e"
  shows "findLabel d p e = designed_findLabel d p e"
proof -
  from assms have a: "labelForText d e \<noteq> Some []" and b: "ariaLabelText e \<noteq> Some []"
    and c: "labelledByText d e \<noteq> Some []"
    by (simp_all add: foundTextsNonEmpty_def)
  have opt: "(case t of Some s \<Rightarrow> s | None \<Rightarrow> R) = (if textOrEmpty t \<noteq> [] then textOrEmpty t else R)"
    if "t \<noteq> Some []" for t :: "string option" and R
    using that by (cases t) (simp_all add: textOrEmpty_def)
  show ?thesis
    unfolding findLabel_cascade designed_cascade opt [OF a] opt [OF b] opt [OF c]
    by simp
qed

text \<open>
  As stated, C8 fails: a textarea with a placeholder and no other source of a label
  gets the empty label, where the seven steps as worded give the placeholder.
\<close>

theorem findLabel_textarea_counterexample:
  "findLabel ex_notes_doc [0, 0] ex_notes_el = []
   \<and> spec_findLabel ex_notes_doc [0, 0] ex_notes_el = ''Notes''"
  by code_simp

theorem findLabel_designed_witness:
  "findLabel ex_email_doc [0, 1] ex_email_el = ''Email''
   \<and> findLabel ex_name_doc [0, 0] ex_name_el = ''first name Given''"
proof -
  have email: "foundTextsNonEmpty ex_email_doc ex_email_el"
    and name: "foundTextsNonEmpty ex_name_doc ex_name_el"
    by code_simp+
  have "designed_findLabel ex_email_doc [0, 1] ex_email_el = ''Email''"
    and "designed_findLabel ex_name_doc [0, 0] ex_name_el = ''first name Given''"
    by code_simp+
  with findLabel_designed [OF email, of "[0, 1]"] findLabel_designed [OF name, of "[0, 0]"]
  show ?thesis by simp
qed

text \<open>
  Where the text found is blank: a label found through \<open>for\<close> ends the search
  even when its text is blank, so this input with a placeholder gets the empty label.
\<close>

lemma findLabel_blank_label:
  "\<not> foundTextsNonEmpty ex_blank_doc ex_blank_el
   \<and> findLabel ex_blank_doc [0, 1] ex_blank_el = []
   \<and> designed_findLabel ex_blank_doc [0, 1] ex_blank_el = ''Your question''"
  by code_simp

section \<open>The question gate\<close>

lemma promise_deliver:
  "promise (deliver g ev) =
     (if promise g = None \<and> isSubmit ev \<and> trim (inputValue g) \<noteq> []
      then Some (trim (inputValue g)) else promise g)"
  by (cases ev) (auto simp: submit_def resolve_def isSubmit_def Let_def)

lemma promise_settled: "promise g = Some a \<Longrightarrow> promise (foldl deliver g evs) = Some a"
  by (induction evs arbitrary: g) (simp_all add: promise_deliver)

lemma promise_origin:
  "promise g = None \<Longrightarrow> promise (foldl deliver g evs) = Some a \<Longrightarrow>
     a \<noteq> [] \<and> (\<exists>before ev after. evs = before @ ev # after \<and> isSubmit ev
        \<and> promise (foldl deliver g before) = None
        \<and> a = trim (inputValue (foldl deliver g before)))"
proof (induction evs rule: rev_induct)
  case Nil
  then show ?case by simp
next
  case (snoc ev evs)
  show ?case
  proof (cases "promise (foldl deliver g evs)")
    case None
    from None snoc.prems(2) have "isSubmit ev" "trim (inputValue (foldl deliver g evs)) \<noteq> []"
      "a = trim (inputValue (foldl deliver g evs))"
      by (auto simp: promise_deliver split: if_splits)
    with None show ?thesis
      by (intro conjI exI [of _ evs] exI [of _ ev] exI [of _ "[]"]) simp_all
  next
    case (Some b)
    with snoc.prems(2) have "b = a"
      by (simp add: promise_deliver)
    with Some snoc.IH [OF snoc.prems(1)] obtain before ev' after where
      "a \<noteq> []" "evs = before @ ev' # after" "isSubmit ev'" "promise (foldl deliver g before) = None"
      "a = trim (inputValue (foldl deliver g before))"
      by blast
    then have "evs @ [ev] = before @ ev' # (after @ [ev])" by simp
    with \<open>a \<noteq> []\<close> \<open>isSubmit ev'\<close> \<open>promise (foldl deliver g before) = None\<close>
      \<open>a = trim (inputValue (foldl deliver g before))\<close>
    show ?thesis by blast
  qed
qed

text \<open>
  C6, as amended. For every question, the promise of \<open>showQuestion\<close> starts pending
  and settles at most once: an event settles it exactly when it is still pending,
  the event is a submit (the submit button or the Enter key) and the trimmed text of
  the input is non-empty, and the answer is that trimmed text; once settled it keeps
  its answer whatever follows. So it never resolves on empty or white-space input,
  and every answer of a run is the non-empty trimmed input of a submit at which the
  promise was still pending.
\<close>

theorem question_gate_resolves_once:
  "promise (showQuestion q) = None
   \<and> promise (deliver g ev) =
       (if promise g = None \<and> isSubmit ev \<and> trim (inputValue g) \<noteq> []
        then Some (trim (inputValue g)) else promise g)
   \<and> (promise g = Some a \<longrightarrow> promise (foldl deliver g evs) = Some a)
   \<and> (promise (foldl deliver (showQuestion q) evs) = Some a \<longrightarrow>
        a \<noteq> [] \<and> (\<exists>before ev after. evs = before @ ev # after \<and> isSubmit ev
           \<and> promise (foldl deliver (showQuestion q) before) = None
           \<and> a = trim (inputValue (foldl deliver (showQuestion q) before))))"
proof -
  have fresh: "promise (showQuestion q) = None"
    by (simp add: showQuestion_def)
  from fresh promise_deliver promise_settled promise_origin [OF fresh] show ?thesis
    by blast
qed

text \<open>
  As stated, C6 fails: the human submits \<open>" Ada "\<close> and the promise resolves with
  \<open>"Ada"\<close>, not with the literal string submitted.
\<close>

theorem literal_answer_counterexample:
  "inputValue (foldl deliver (showQuestion ''Name?'') [SetInput '' Ada '']) = '' Ada ''
   \<and> promise (foldl deliver (showQuestion ''Name?'') [SetInput '' Ada '', ClickSubmit]) = Some ''Ada''"
  by code_simp

theorem question_gate_resolves_once_witness:
  "promise (foldl deliver (showQuestion ''Name?'') [SetInput ''   '', ClickSubmit, KeyDown ''Enter'']) = None
   \<and> promise (foldl deliver (showQuestion ''Name?'')
        [SetInput ''   '', ClickSubmit, SetInput '' Ada '', KeyDown ''Enter'',
         SetInput ''Grace'', ClickSubmit]) = Some ''Ada''"
proof -
  have first: "promise (foldl deliver (showQuestion ''Name?'')
                 [SetInput ''   '', ClickSubmit, SetInput '' Ada '', KeyDown ''Enter'']) = Some ''Ada''"
    by code_simp
  have blank: "promise (foldl deliver (showQuestion ''Name?'')
                 [SetInput ''   '', ClickSubmit, KeyDown ''Enter'']) = None"
    by code_simp
  from question_gate_resolves_once
         [of "''Name?''"
             "foldl deliver (showQuestion ''Name?'')
                [SetInput ''   '', ClickSubmit, SetInput '' Ada '', KeyDown ''Enter'']"
             _ "''Ada''" "[SetInput ''Grace'', ClickSubmit]"]
       first
  have "promise (foldl deliver (foldl deliver (showQuestion ''Name?'')
                [SetInput ''   '', ClickSubmit, SetInput '' Ada '', KeyDown ''Enter''])
                [SetInput ''Grace'', ClickSubmit]) = Some ''Ada''"
    by blast
  with blank show ?thesis by simp
qed

section \<open>The session relay: one open stream per tab\<close>


lemma target_after_close:
  "h < length xs \<Longrightarrow>
     targetTabId (xs[i := (xs ! i)\<lparr>streamClosed := True\<rparr>] ! h) = targetTabId (xs ! h)"
  by (cases "i = h") simp_all






lemma afterTeardown_unregistered: "sessions (afterTeardown t st) t = None"
  by (cases "sessions st t")
     (simp_all add: afterTeardown_def deleteSession_def stopAutofill_def closeStream_def)



lemma afterTeardown_existing:
  "sessions st t = Some existing \<Longrightarrow>
     trace (afterTeardown t st) = trace st @ [CloseStream (eventSource existing), StopRequest (sessionId existing)]
     \<and> streams (afterTeardown t st) =
         (streams st)[eventSource existing := (streams st ! eventSource existing)\<lparr>streamClosed := True\<rparr>]"
  by (simp add: afterTeardown_def deleteSession_def stopAutofill_def closeStream_def)


lemma handleACTIVATE_Inl:
  assumes "resolveTabId senderTab activeTab = Some t"
  shows "handleACTIVATE senderTab activeTab (Inl err) st =
           (ErrorResponse err, (afterTeardown t st)\<lparr>trace := trace (afterTeardown t st) @ [StartRequest]\<rparr>)"
  using assms by (simp add: handleACTIVATE_def afterTeardown_def Let_def)










section \<open>The session relay: handlers suspended and resumed\<close>

lemmas relay_ops = closeStream_def stopAutofill_def startAutofill_def deleteSession_def
  createStatusStream_def sendStopped_def registerSession_def

lemmas relay_steps = uninterrupted_def resumeLast_def resume_def receive_def settle_def
  activateEntry_def activateFrom_def stopEntry_def stopFrom_def answerFor_def resolveTabId_def

text \<open>
  An uninterrupted handler does what the source reads from the message to the
  response, and leaves \<open>pending\<close> as it found it.
\<close>

lemma handleACTIVATE_fields:
  "fst (uninterrupted (answerFor activeTab startResult) (receive (activateEntry senderTab st)))
     = Some (fst (handleACTIVATE senderTab activeTab startResult st))
   \<and> sessions (snd (uninterrupted (answerFor activeTab startResult) (receive (activateEntry senderTab st))))
     = sessions (snd (handleACTIVATE senderTab activeTab startResult st))
   \<and> streams (snd (uninterrupted (answerFor activeTab startResult) (receive (activateEntry senderTab st))))
     = streams (snd (handleACTIVATE senderTab activeTab startResult st))
   \<and> trace (snd (uninterrupted (answerFor activeTab startResult) (receive (activateEntry senderTab st))))
     = trace (snd (handleACTIVATE senderTab activeTab startResult st))
   \<and> pending (snd (uninterrupted (answerFor activeTab startResult) (receive (activateEntry senderTab st))))
     = pending (snd (handleACTIVATE senderTab activeTab startResult st))"
  apply (cases "truthyTab senderTab"; cases "truthyTab activeTab";
         cases "sessions st (the (resolveTabId senderTab activeTab))"; cases startResult)
  apply (simp_all add: relay_steps relay_ops handleACTIVATE_def Let_def)
  done

lemma handleACTIVATE_uninterrupted:
  "uninterrupted (answerFor activeTab startResult) (receive (activateEntry senderTab st))
     = (Some (fst (handleACTIVATE senderTab activeTab startResult st)),
        snd (handleACTIVATE senderTab activeTab startResult st))"
proof (rule prod_eqI)
  show "fst (uninterrupted (answerFor activeTab startResult) (receive (activateEntry senderTab st)))
          = fst (Some (fst (handleACTIVATE senderTab activeTab startResult st)),
                 snd (handleACTIVATE senderTab activeTab startResult st))"
    using handleACTIVATE_fields [of activeTab startResult senderTab st] by simp
  show "snd (uninterrupted (answerFor activeTab startResult) (receive (activateEntry senderTab st)))
          = snd (Some (fst (handleACTIVATE senderTab activeTab startResult st)),
                 snd (handleACTIVATE senderTab activeTab startResult st))"
    using handleACTIVATE_fields [of activeTab startResult senderTab st]
    by (intro relay_state.equality) simp_all
qed

lemma handleSTOP_fields:
  "fst (uninterrupted (answerFor activeTab startResult) (receive (stopEntry senderTab st)))
     = Some (fst (handleSTOP senderTab activeTab st))
   \<and> sessions (snd (uninterrupted (answerFor activeTab startResult) (receive (stopEntry senderTab st))))
     = sessions (snd (handleSTOP senderTab activeTab st))
   \<and> streams (snd (uninterrupted (answerFor activeTab startResult) (receive (stopEntry senderTab st))))
     = streams (snd (handleSTOP senderTab activeTab st))
   \<and> trace (snd (uninterrupted (answerFor activeTab startResult) (receive (stopEntry senderTab st))))
     = trace (snd (handleSTOP senderTab activeTab st))
   \<and> pending (snd (uninterrupted (answerFor activeTab startResult) (receive (stopEntry senderTab st))))
     = pending (snd (handleSTOP senderTab activeTab st))"
  apply (cases "truthyTab senderTab"; cases "truthyTab activeTab";
         cases "sessions st (the (resolveTabId senderTab activeTab))")
  apply (simp_all add: relay_steps relay_ops handleSTOP_def Let_def)
  done

lemma handleSTOP_uninterrupted:
  "uninterrupted (answerFor activeTab startResult) (receive (stopEntry senderTab st))
     = (Some (fst (handleSTOP senderTab activeTab st)), snd (handleSTOP senderTab activeTab st))"
proof (rule prod_eqI)
  show "fst (uninterrupted (answerFor activeTab startResult) (receive (stopEntry senderTab st)))
          = fst (Some (fst (handleSTOP senderTab activeTab st)), snd (handleSTOP senderTab activeTab st))"
    using handleSTOP_fields [of activeTab startResult senderTab st] by simp
  show "snd (uninterrupted (answerFor activeTab startResult) (receive (stopEntry senderTab st)))
          = snd (Some (fst (handleSTOP senderTab activeTab st)), snd (handleSTOP senderTab activeTab st))"
    using handleSTOP_fields [of activeTab startResult senderTab st]
    by (intro relay_state.equality) simp_all
qed

text \<open>
  Whatever the interleaving, the stream of a registered session exists and was
  installed for that tab: \<open>sessions.set\<close> follows \<open>createStatusStream\<close> without an
  \<open>await\<close> in between.
\<close>

lemma registered_cong:
  "sessions st' = sessions st \<Longrightarrow> streams st' = streams st \<Longrightarrow> registered st' = registered st"
  by (simp add: registered_def)

lemma registered_closeStream: "registered st \<Longrightarrow> registered (closeStream h st)"
  unfolding registered_def by (simp add: closeStream_def target_after_close)

lemma registered_deleteSession: "registered st \<Longrightarrow> registered (deleteSession t st)"
  unfolding registered_def by (simp add: deleteSession_def)

lemma registered_stopAutofill: "registered st \<Longrightarrow> registered (stopAutofill sid st)"
  unfolding registered_def by (simp add: stopAutofill_def)

lemma registered_startAutofill: "registered st \<Longrightarrow> registered (startAutofill st)"
  unfolding registered_def by (simp add: startAutofill_def)

lemma registered_sendStopped: "registered st \<Longrightarrow> registered (sendStopped t st)"
  unfolding registered_def by (simp add: sendStopped_def)

lemma registered_pending: "registered (st\<lparr>pending := ps\<rparr>) = registered st"
  by (simp add: registered_def)

lemma registered_registerSession:
  assumes "registered st"
  shows "registered (registerSession t sid st)"
  unfolding registered_def
proof (intro allI impI)
  fix t' s
  assume reg: "sessions (registerSession t sid st) t' = Some s"
  have str: "streams (registerSession t sid st)
               = streams st @ [\<lparr>streamSessionId = sid, targetTabId = t, streamClosed = False\<rparr>]"
    by (simp add: registerSession_def createStatusStream_def Let_def)
  show "eventSource s < length (streams (registerSession t sid st))
          \<and> targetTabId (streams (registerSession t sid st) ! eventSource s) = t'"
  proof (cases "t' = t")
    case True
    with reg have "eventSource s = length (streams st)"
      by (auto simp: registerSession_def createStatusStream_def Let_def)
    with True show ?thesis by (simp add: str)
  next
    case False
    with reg have "sessions st t' = Some s"
      by (simp add: registerSession_def createStatusStream_def Let_def)
    with assms have "eventSource s < length (streams st)"
      "targetTabId (streams st ! eventSource s) = t'"
      by (auto simp: registered_def)
    then show ?thesis by (simp add: str nth_append)
  qed
qed

lemmas registered_kept = registered_closeStream registered_deleteSession registered_stopAutofill
  registered_startAutofill registered_sendStopped registered_pending registered_registerSession

lemma registered_activateFrom: "registered st \<Longrightarrow> registered (snd (activateFrom tab st))"
  by (simp add: activateFrom_def registered_kept split: option.splits)

lemma registered_stopFrom: "registered st \<Longrightarrow> registered (snd (stopFrom tab st))"
  by (simp add: stopFrom_def registered_kept split: option.splits)

lemma registered_continueTask:
  "registered st \<Longrightarrow> continueTask k a st = Some x \<Longrightarrow> registered (snd x)"
  by (induction k a st rule: continueTask.induct)
     (auto simp: registered_kept registered_activateFrom registered_stopFrom)

lemma registered_receive: "registered (snd x) \<Longrightarrow> registered (snd (receive x))"
  by (cases "fst x") (simp_all add: receive_def registered_pending)

lemma registered_settle: "registered (snd x) \<Longrightarrow> registered (snd (settle i x))"
  by (cases "fst x") (simp_all add: settle_def registered_pending)

lemma registered_resume: "registered st \<Longrightarrow> registered (snd (resume i a st))"
  by (auto simp: resume_def registered_settle registered_continueTask split: option.splits)

lemma registered_onerror: "registered st \<Longrightarrow> registered (onerror h st)"
  by (simp add: onerror_def registered_kept)

lemma registered_onRemoved: "registered st \<Longrightarrow> registered (onRemoved t st)"
  by (simp add: onRemoved_def registered_kept split: option.splits)

lemma reachable_registered: "reachable st \<Longrightarrow> registered st"
proof (induction rule: reachable.induct)
  case initial
  show ?case by (simp add: registered_def initialRelay_def)
next
  case (activate_message st senderTab)
  then show ?case
    by (intro registered_receive) (simp add: activateEntry_def registered_activateFrom split: option.splits)
next
  case (stop_message st senderTab)
  then show ?case
    by (intro registered_receive) (simp add: stopEntry_def registered_stopFrom split: option.splits)
next
  case (resumed st i a)
  then show ?case by (simp add: registered_resume)
next
  case (stream_error st h)
  then show ?case by (simp add: registered_onerror)
next
  case (tab_removed st tabId)
  then show ?case by (simp add: registered_onRemoved)
qed


lemma serial_idle: "serial st \<Longrightarrow> pending st = []"
  by (induction rule: serial.induct)
     (simp_all add: initialRelay_def handleACTIVATE_uninterrupted handleSTOP_uninterrupted
        handleACTIVATE_def handleSTOP_def onerror_def onRemoved_def relay_ops Let_def
        split: option.splits sum.splits)

text \<open>The states of uninterrupted handling are states the worker can be in.\<close>

lemma reachable_resumeLast: "reachable (snd x) \<Longrightarrow> reachable (snd (resumeLast ans x))"
  by (cases "fst x") (auto simp: resumeLast_def intro: reachable.resumed)

lemma reachable_uninterrupted: "reachable (snd x) \<Longrightarrow> reachable (snd (uninterrupted ans x))"
  by (simp add: uninterrupted_def reachable_resumeLast)

lemma serial_reachable: "serial st \<Longrightarrow> reachable st"
  by (induction rule: serial.induct)
     (auto intro: reachable.intros reachable_uninterrupted)

lemma serial_ex_relay: "serial ex_relay"
proof -
  have "ex_relay = snd (uninterrupted (answerFor None (Inr ''s-1''))
                          (receive (activateEntry (Some 7) initialRelay)))"
    by (simp add: ex_relay_def handleACTIVATE_uninterrupted)
  then show ?thesis
    using serial.activate [OF serial.initial, of None "Inr ''s-1''" "Some 7"] by simp
qed




text \<open>
  When the backend refuses the start request, the old session is torn down all the
  same and the tab is left without an entry.
\<close>

lemma activation_start_failure:
  assumes "resolveTabId senderTab activeTab = Some tabId" and "sessions st tabId = Some old"
  shows "\<exists>st'. handleACTIVATE senderTab activeTab (Inl err) st = (ErrorResponse err, st')
           \<and> trace st' = trace st @ [CloseStream (eventSource old), StopRequest (sessionId old), StartRequest]
           \<and> sessions st' tabId = None"
  using assms afterTeardown_existing [OF assms(2)]
  by (simp add: handleACTIVATE_Inl afterTeardown_unregistered)

text \<open>
  C7. For every session whose stream has reported an error (the handler closes the
  stream and removes the tab's registry entry, without any stop request), a STOP
  request for that tab afterwards is a no-op: it answers \<open>{ok: true}\<close> and leaves the
  state as it is, so no stop request is issued and nothing is thrown.
\<close>

theorem stop_after_stream_error:
  assumes "reachable st" and "sessions st tabId = Some s"
    and "resolveTabId senderTab activeTab = Some tabId"
  shows "sessions (onerror (eventSource s) st) tabId = None
       \<and> trace (onerror (eventSource s) st) = trace st @ [CloseStream (eventSource s)]
       \<and> handleSTOP senderTab activeTab (onerror (eventSource s) st)
           = (OkResponse, onerror (eventSource s) st)"
proof -
  from reachable_registered [OF assms(1)] assms(2)
  have valid: "eventSource s < length (streams st)"
    and target: "targetTabId (streams st ! eventSource s) = tabId"
    by (simp_all add: registered_def)
  have gone: "sessions (onerror (eventSource s) st) tabId = None"
    using valid target by (simp add: onerror_def deleteSession_def closeStream_def)
  have tr: "trace (onerror (eventSource s) st) = trace st @ [CloseStream (eventSource s)]"
    using valid by (simp add: onerror_def deleteSession_def closeStream_def)
  have "handleSTOP senderTab activeTab (onerror (eventSource s) st) = (OkResponse, onerror (eventSource s) st)"
    using assms(3) gone by (simp add: handleSTOP_def)
  with gone tr show ?thesis by simp
qed

theorem stop_after_stream_error_witness:
  "sessions (onerror 0 ex_relay) 7 = None
   \<and> trace (onerror 0 ex_relay) = [StartRequest, OpenStream ''s-1'', CloseStream 0]
   \<and> handleSTOP (Some 7) None (onerror 0 ex_relay) = (OkResponse, onerror 0 ex_relay)"
proof -
  have reach: "reachable ex_relay"
    using serial_ex_relay by (rule serial_reachable)
  have tab: "resolveTabId (Some 7) None = Some 7"
    by code_simp
  have entry: "sessions ex_relay 7 = Some \<lparr>sessionId = ''s-1'', eventSource = 0\<rparr>"
    by code_simp
  have before: "trace ex_relay = [StartRequest, OpenStream ''s-1'']"
    by code_simp
  from stop_after_stream_error [OF reach entry tab] before
  show ?thesis by simp
qed

section \<open>The reference table names elements of the document\<close>

lemma nodeAt_subAt: "nodeAt ns (i # q) = (if i < length ns then subAt (ns ! i) q else None)"
proof (induction q arbitrary: ns i)
  case Nil
  then show ?case by simp
next
  case (Cons j q)
  show ?case
  proof (cases "i < length ns")
    case False
    then show ?thesis by simp
  next
    case True
    then have "nodeAt ns (i # j # q) =
                 (case ns ! i of ElemNode e cs \<Rightarrow> nodeAt cs (j # q) | TextNode s \<Rightarrow> None)"
      by simp
    with True show ?thesis
      by (cases "ns ! i") (simp_all add: Cons.IH del: nodeAt.simps)
  qed
qed

lemma walk_sound:
  "(q, e, cs) \<in> set (walk n p) \<Longrightarrow> \<exists>q'. q = p @ q' \<and> subAt n q' = Some (ElemNode e cs)"
proof (induction n arbitrary: p q e cs)
  case (TextNode s)
  then show ?case by simp
next
  case (ElemNode e' cs')
  from ElemNode.prems consider (here) "(q, e, cs) = (p, e', cs')"
    | (below) "(q, e, cs) \<in> set (concat (map (\<lambda>(i, f). f (p @ [i])) (zip [0..<length cs'] (map walk cs'))))"
    by auto
  then show ?case
  proof cases
    case here
    then show ?thesis by simp
  next
    case below
    then obtain i f where "(i, f) \<in> set (zip [0..<length cs'] (map walk cs'))"
      and mem: "(q, e, cs) \<in> set (f (p @ [i]))"
      by auto
    then have i: "i < length cs'" and f: "f = walk (cs' ! i)"
      by (auto simp: set_zip)
    from i have "cs' ! i \<in> set cs'" by simp
    from ElemNode.IH [OF this] mem f obtain q' where
      "q = (p @ [i]) @ q'" "subAt (cs' ! i) q' = Some (ElemNode e cs)"
      by blast
    with i have "q = p @ (i # q')" "subAt (ElemNode e' cs') (i # q') = Some (ElemNode e cs)"
      by simp_all
    then show ?thesis by blast
  qed
qed

lemma walkAll_sound:
  assumes "(q, e, cs) \<in> set (walkAll d)"
  shows "nodeAt d q = Some (ElemNode e cs)"
proof -
  from assms obtain i n where "(i, n) \<in> set (zip [0..<length d] d)"
    and mem: "(q, e, cs) \<in> set (walk n [i])"
    by (auto simp: walkAll_def)
  then have i: "i < length d" and n: "n = d ! i"
    by (auto simp: set_zip)
  from walk_sound [OF mem] obtain q' where "q = i # q'" "subAt n q' = Some (ElemNode e cs)"
    by auto
  with i n show ?thesis by (simp add: nodeAt_subAt del: nodeAt.simps)
qed

lemma boundIn_upd: "boundIn d rm \<Longrightarrow> elemAt d p \<noteq> None \<Longrightarrow> boundIn d (rm(r \<mapsto> p))"
  by (simp add: boundIn_def)

lemma scanFields_bound:
  assumes "boundIn d rm" and "\<forall>x \<in> set xs. elemAt d (fst x) \<noteq> None"
  shows "boundIn d (fst (snd (scanFields d' xs i rm fs)))"
  using assms
proof (induction d' xs i rm fs rule: scanFields.induct)
  case (1 d' fieldIdx rm fs)
  then show ?case by simp
next
  case (2 d' p e cs rest fieldIdx rm fs)
  from "2.prems"(2) have here: "elemAt d p \<noteq> None" and rest: "\<forall>x \<in> set rest. elemAt d (fst x) \<noteq> None"
    by simp_all
  show ?case
  proof (cases "\<not> isVisible e \<or> isHiddenInput e")
    case True
    with "2.IH"(1) "2.prems"(1) rest show ?thesis by simp
  next
    case False
    define r where "r = ''f'' @ string_of_nat fieldIdx"
    have step: "scanFields d' ((p, e, cs) # rest) fieldIdx rm fs =
                  scanFields d' rest (Suc fieldIdx) (rm(r \<mapsto> p)) (fs @ [scanField d' r p e])"
      using False by (simp add: r_def Let_def)
    have "boundIn d (rm(r \<mapsto> p))"
      using "2.prems"(1) here by (rule boundIn_upd)
    then show ?thesis
      unfolding step using rest by (rule "2.IH"(2) [OF False r_def])
  qed
qed

lemma scanButtons_bound:
  assumes "boundIn d rm" and "\<forall>x \<in> set xs. elemAt d (fst x) \<noteq> None"
  shows "boundIn d (fst (snd (scanButtons xs i rm bs)))"
  using assms
proof (induction xs i rm bs rule: scanButtons.induct)
  case (1 buttonIdx rm bs)
  then show ?case by simp
next
  case (2 p e cs rest buttonIdx rm bs)
  from "2.prems"(2) have here: "elemAt d p \<noteq> None" and rest: "\<forall>x \<in> set rest. elemAt d (fst x) \<noteq> None"
    by simp_all
  define label where "label = getButtonText e cs"
  show ?case
  proof (cases "\<not> isVisible e")
    case True
    with "2.IH"(1) "2.prems"(1) rest show ?thesis by simp
  next
    case False
    show ?thesis
    proof (cases "label = []")
      case True
      with "2.IH"(2) [OF False label_def] "2.prems"(1) rest False show ?thesis
        by (simp add: label_def)
    next
      case filled: False
      define r where "r = ''b'' @ string_of_nat buttonIdx"
      define b where "b = \<lparr>sb_ref = r, sb_text = label,
                             sb_type = (if isButton e
                                        then (if el_type e \<noteq> [] then el_type e else ''button'')
                                        else ''button'')\<rparr>"
      have step: "scanButtons ((p, e, cs) # rest) buttonIdx rm bs =
                    scanButtons rest (Suc buttonIdx) (rm(r \<mapsto> p)) (bs @ [b])"
        using False filled by (simp add: r_def b_def label_def Let_def)
      have "boundIn d (rm(r \<mapsto> p))"
        using "2.prems"(1) here by (rule boundIn_upd)
      then show ?thesis
        unfolding step b_def using rest by (rule "2.IH"(3) [OF False label_def filled r_def])
    qed
  qed
qed

lemma scanLinks_bound:
  assumes "boundIn d rm" and "\<forall>x \<in> set xs. elemAt d (fst x) \<noteq> None"
  shows "boundIn d (fst (snd (scanLinks xs i rm bs)))"
  using assms
proof (induction xs i rm bs rule: scanLinks.induct)
  case (1 buttonIdx rm bs)
  then show ?case by simp
next
  case (2 p e cs rest buttonIdx rm bs)
  from "2.prems"(2) have here: "elemAt d p \<noteq> None" and rest: "\<forall>x \<in> set rest. elemAt d (fst x) \<noteq> None"
    by simp_all
  define label where "label = trim (textContent (ElemNode e cs))"
  show ?case
  proof (cases "\<not> isVisible e")
    case True
    with "2.IH"(1) "2.prems"(1) rest show ?thesis by simp
  next
    case False
    show ?thesis
    proof (cases "label = []")
      case True
      with "2.IH"(2) [OF False label_def] "2.prems"(1) rest False show ?thesis
        by (simp add: label_def)
    next
      case filled: False
      define r where "r = ''b'' @ string_of_nat buttonIdx"
      define b where "b = \<lparr>sb_ref = r, sb_text = label, sb_type = ''link''\<rparr>"
      have step: "scanLinks ((p, e, cs) # rest) buttonIdx rm bs =
                    scanLinks rest (Suc buttonIdx) (rm(r \<mapsto> p)) (bs @ [b])"
        using False filled by (simp add: r_def b_def label_def Let_def)
      have "boundIn d (rm(r \<mapsto> p))"
        using "2.prems"(1) here by (rule boundIn_upd)
      then show ?thesis
        unfolding step b_def using rest by (rule "2.IH"(3) [OF False label_def filled r_def])
    qed
  qed
qed

lemma walkAll_elemAt: "x \<in> set (walkAll d) \<Longrightarrow> elemAt d (fst x) \<noteq> None"
  by (cases x) (auto simp: elemAt_def dest: walkAll_sound)

lemma scanPage_binds_elements:
  "refMap (snd (scanPage st)) r = Some p \<Longrightarrow> elemAt (doc st) p \<noteq> None"
proof -
  define els where "els = walkAll (doc st)"
  define F where "F = scanFields (doc st) (filter (\<lambda>(p, e, cs). isFormElement e) els) 0 Map.empty []"
  define Bt where "Bt = scanButtons (filter (\<lambda>(p, e, cs). isButtonElement e) els) 0 (fst (snd F)) []"
  define L where "L = scanLinks (filter (\<lambda>(p, e, cs). isLinkButton e) els) (fst Bt) (fst (snd Bt)) (snd (snd Bt))"
  have all: "\<forall>x \<in> set (filter P els). elemAt (doc st) (fst x) \<noteq> None" for P
    by (simp add: els_def walkAll_elemAt)
  have "boundIn (doc st) Map.empty"
    by (simp add: boundIn_def)
  then have "boundIn (doc st) (fst (snd F))"
    unfolding F_def using all by (rule scanFields_bound)
  then have "boundIn (doc st) (fst (snd Bt))"
    unfolding Bt_def using all by (rule scanButtons_bound)
  then have bound: "boundIn (doc st) (fst (snd L))"
    unfolding L_def using all by (rule scanLinks_bound)
  have "refMap (snd (scanPage st)) = fst (snd L)"
    by (simp add: scanPage_def Let_def F_def Bt_def L_def els_def split: prod.splits)
  with bound show "refMap (snd (scanPage st)) r = Some p \<Longrightarrow> elemAt (doc st) p \<noteq> None"
    by (simp add: boundIn_def)
qed

lemma nodeAt_updateAt_shape:
  "(case nodeAt (updateAt f ns p) q of Some (ElemNode e cs) \<Rightarrow> True | _ \<Rightarrow> False)
     = (case nodeAt ns q of Some (ElemNode e cs) \<Rightarrow> True | _ \<Rightarrow> False)"
proof (induction q arbitrary: ns p)
  case Nil
  then show ?case by simp
next
  case (Cons j q)
  show ?case
  proof (cases p)
    case Nil
    then show ?thesis by simp
  next
    case (Cons i p')
    show ?thesis
    proof (cases "i < length ns")
      case False
      with Cons show ?thesis by simp
    next
      case True
      show ?thesis
      proof (cases "ns ! i")
        case (TextNode s)
        with True Cons show ?thesis by simp
      next
        case (ElemNode e cs)
        show ?thesis
        proof (cases "j = i")
          case False
          with True Cons ElemNode show ?thesis by simp
        next
          case same: True
          show ?thesis
          proof (cases "p' = []")
            case True
            with \<open>i < length ns\<close> Cons ElemNode same show ?thesis by simp
          next
            case False
            with \<open>i < length ns\<close> Cons ElemNode same Cons.IH [of cs p'] show ?thesis by simp
          qed
        qed
      qed
    qed
  qed
qed

lemma elemAt_updateAt_defined: "(elemAt (updateAt f ns p) q = None) = (elemAt ns q = None)"
  using nodeAt_updateAt_shape [of f ns p q]
  by (auto simp: elemAt_def split: option.splits node.splits)

lemma activation_defined: "(elemAt (activation p e d) q = None) = (elemAt d q = None)"
  by (simp add: activation_def elemAt_updateAt_defined elemAt_uncheckGroup)

lemma tableBound_scanPage: "tableBound (snd (scanPage st))"
proof -
  have "doc (snd (scanPage st)) = doc st"
    by (simp add: scanPage_def Let_def split: prod.splits)
  then show ?thesis
    using scanPage_binds_elements [of st] by (simp add: tableBound_def boundIn_def)
qed

lemma tableBound_cong:
  assumes "tableBound st" and "refMap st' = refMap st"
    and "\<And>q. (elemAt (doc st') q = None) = (elemAt (doc st) q = None)"
  shows "tableBound st'"
  using assms by (simp add: tableBound_def boundIn_def)

lemma tableBound_click: "tableBound st \<Longrightarrow> tableBound (click p e st)"
  by (erule tableBound_cong) (simp_all add: click_def activation_defined)

lemma tableBound_focus: "tableBound st \<Longrightarrow> tableBound (focus p st)"
  by (erule tableBound_cong) (simp_all add: focus_def)

lemma tableBound_dispatchEvent: "tableBound st \<Longrightarrow> tableBound (dispatchEvent p ty st)"
  by (erule tableBound_cong) (simp_all add: dispatchEvent_def)

lemma tableBound_assignValue: "tableBound st \<Longrightarrow> tableBound (assignValue p v st)"
  by (erule tableBound_cong) (simp_all add: assignValue_def elemAt_updateAt_defined)

lemma tableBound_fillTextInput: "tableBound st \<Longrightarrow> tableBound (snd (fillTextInput p v st))"
  by (simp add: fillTextInput_def Let_def tableBound_focus tableBound_dispatchEvent tableBound_assignValue)

lemma tableBound_fillSelect: "tableBound st \<Longrightarrow> tableBound (snd (fillSelect p e v st))"
  by (simp add: fillSelect_def Let_def tableBound_dispatchEvent tableBound_assignValue
      split: option.splits)

text \<open>
  On a state whose table is bound, as every scan leaves it, \<open>fillFieldByRef\<close> and
  \<open>clickElementByRef\<close> always return a result, and the table stays bound.
\<close>

lemma bound_table_actions_return:
  assumes "tableBound st"
  shows "\<exists>res st'. fillFieldByRef r v st = Some (res, st') \<and> tableBound st'"
    and "\<exists>res st'. clickElementByRef r st = Some (res, st') \<and> tableBound st'"
proof -
  show "\<exists>res st'. fillFieldByRef r v st = Some (res, st') \<and> tableBound st'"
  proof (cases "refMap st r")
    case None
    with assms show ?thesis by (simp add: fillFieldByRef_def)
  next
    case (Some p)
    with assms obtain e where e: "elemAt (doc st) p = Some e"
      by (auto simp: tableBound_def boundIn_def)
    define out where "out =
      (if isSelect e then fillSelect p e v st
       else if isTextArea e then fillTextInput p v st
       else if isInput e then
         (if el_type e = ''checkbox'' then
            (let shouldCheck = (toLowerCase v \<in> set [''true'', ''yes'', ''1''])
             in (success, if checked e \<noteq> shouldCheck then click p e st else st))
          else if el_type e = ''radio'' then
            (success, if \<not> checked e then click p e st else st)
          else if el_type e = ''file'' then
            (failure ''Cannot programmatically fill file inputs'', st)
          else fillTextInput p v st)
       else if hasValueProperty e then
         (success, dispatchEvent p ''change'' (dispatchEvent p ''input'' (assignValue p v st)))
       else (failure (''Cannot fill element type: '' @ tagName e), st))"
    have run: "fillFieldByRef r v st = Some out"
      using Some e by (simp add: fillFieldByRef_def out_def)
    have "tableBound (snd out)"
      using assms
      by (simp add: out_def Let_def tableBound_click tableBound_dispatchEvent
            tableBound_assignValue tableBound_fillSelect tableBound_fillTextInput)
    with run show ?thesis
      by (cases out) simp
  qed
  show "\<exists>res st'. clickElementByRef r st = Some (res, st') \<and> tableBound st'"
  proof (cases "refMap st r")
    case None
    with assms show ?thesis by (simp add: clickElementByRef_def)
  next
    case (Some p)
    with assms obtain e where e: "elemAt (doc st) p = Some e"
      by (auto simp: tableBound_def boundIn_def)
    with Some assms show ?thesis
      by (simp add: clickElementByRef_def tableBound_click)
  qed
qed

end
